theory Spec2Isabelle
  imports Complex_Main "HOL-Library.AList"
begin

section \<open>Python values shared by the Task Provider and the Dashboard\<close>

text \<open>
  The exceptions the modelled code raises or catches. All of them are subclasses of
  Python's \<open>Exception\<close>, so \<open>except Exception\<close> catches each of them.
\<close>

datatype exn =
    KeyError
  | AttributeError
  | IndexError
  | IOError
  | OSError
  | ValueError
  | OtherException string

text \<open>
  \<open>str(id)\<close> and \<open>'{0}'.format(id)\<close> for an integer task id: its decimal digits.
\<close>

fun str_nat :: "nat \<Rightarrow> string" where
  "str_nat n =
     (if n < 10 then [char_of (48 + n)]
      else str_nat (n div 10) @ [char_of (48 + n mod 10)])"

declare str_nat.simps [simp del]

definition str_int :: "int \<Rightarrow> string" where
  "str_int i = (if i < 0 then CHR ''-'' # str_nat (nat (- i)) else str_nat (nat i))"

text \<open>\<open>os.path.join\<close> of two relative components.\<close>

definition path_join :: "string \<Rightarrow> string \<Rightarrow> string" where
  "path_join a b = a @ ''/'' @ b"

text \<open>
  A Python dict is an association list with distinct keys: \<open>AList.update\<close> is
  \<open>d[k] = v\<close>, \<open>AList.delete\<close> is \<open>del d[k]\<close>, \<open>map_of\<close> is the lookup.
  A \<open>defaultdict\<close> access \<open>d[k]\<close> followed by an in-place change \<open>f\<close> of the entry
  creates the entry from the default value first.
\<close>

definition dd_modify :: "'k \<Rightarrow> 'v \<Rightarrow> ('v \<Rightarrow> 'v) \<Rightarrow> ('k \<times> 'v) list \<Rightarrow> ('k \<times> 'v) list" where
  "dd_modify k dflt f d = AList.map_default k (f dflt) f d"

text \<open>A structured document as \<open>json.dump\<close> writes it (the task parameter document).\<close>

datatype json =
    JNone
  | JBool bool
  | JStr string
  | JList "json list"
  | JDict "(string \<times> json) list"

section \<open>lobster/cmssw/dash.py\<close>

definition UNKNOWN :: string where "UNKNOWN = ''Unknown''"
definition SUBMITTED :: string where "SUBMITTED = ''Pending''"
definition DONE :: string where "DONE = ''Done''"
definition RETRIEVED :: string where "RETRIEVED = ''Retrieved''"
definition ABORTED :: string where "ABORTED = ''Aborted''"
definition CANCELLED :: string where "CANCELLED = ''Killed''"
definition RUNNING :: string where "RUNNING = ''Running''"
definition WAITING_RETRIEVAL :: string where "WAITING_RETRIEVAL = ''Waiting Retrieval''"

text \<open>
  The task states of the external \<open>work_queue\<close> library. \<open>WORK_QUEUE_TASK_OTHER\<close>
  stands for every value that is not a key of \<open>status_map\<close>.
\<close>

datatype wq_task_state =
    WORK_QUEUE_TASK_UNKNOWN
  | WORK_QUEUE_TASK_READY
  | WORK_QUEUE_TASK_RUNNING
  | WORK_QUEUE_TASK_WAITING_RETRIEVAL
  | WORK_QUEUE_TASK_RETRIEVED
  | WORK_QUEUE_TASK_DONE
  | WORK_QUEUE_TASK_CANCELED
  | WORK_QUEUE_TASK_OTHER int

fun status_map :: "wq_task_state \<Rightarrow> string option" where
  "status_map WORK_QUEUE_TASK_UNKNOWN = Some UNKNOWN"
| "status_map WORK_QUEUE_TASK_READY = Some SUBMITTED"
| "status_map WORK_QUEUE_TASK_RUNNING = Some RUNNING"
| "status_map WORK_QUEUE_TASK_WAITING_RETRIEVAL = Some WAITING_RETRIEVAL"
| "status_map WORK_QUEUE_TASK_RETRIEVED = Some RETRIEVED"
| "status_map WORK_QUEUE_TASK_DONE = Some DONE"
| "status_map WORK_QUEUE_TASK_CANCELED = Some ABORTED"
| "status_map (WORK_QUEUE_TASK_OTHER v) = None"

text \<open>
  A message handed to \<open>apMonSend\<close>. The constant fields and the two wall-clock
  time stamps of the source's dictionaries are left out.
\<close>

record message =
  MessageType :: string
  taskId :: string
  jobId :: string
  sid :: string
  StatusValue :: string

text \<open>
  The work queue as \<open>update_tasks\<close> reads it: \<open>queue._task_table.keys()\<close>, which
  returns the known ids or raises, and \<open>queue.task_state(id)\<close>.
\<close>

record queue =
  task_table :: "exn + int list"
  task_state :: "int \<Rightarrow> wq_task_state"

text \<open>The fields of a \<open>Dashboard\<close> object that its methods read or write.\<close>

record dashboard =
  interval :: int
  previous :: real
  states :: "(int \<times> string) list"
  workflowid :: string
  ce :: string
  dash :: bool

section \<open>lobster/core/source.py: data\<close>

text \<open>
  A TaskInfo is the tuple \<open>(id, label, files, lumis, unique_arg, merge)\<close>. For a merge
  task the first component of each entry of \<open>lumis\<close> is the id of a constituent task.
\<close>

type_synonym lumi = "int \<times> int \<times> int \<times> int"
type_synonym taskinfo = "int \<times> string \<times> (int \<times> string) list \<times> lumi list \<times> string option \<times> bool"

text \<open>Opaque payloads that the Task Provider only passes on.\<close>

type_synonym task_update = int
type_synonym file_update = "(int \<times> int \<times> string) list"
type_synonym unit_update = "(int \<times> int) list"
type_synonym output_info = int
type_synonym transfers = "(string \<times> int) list"
type_synonym updates = "((string \<times> string) \<times> (task_update \<times> file_update \<times> unit_update) list) list"

text \<open>
  The attributes of a workflow that the Task Provider reads. \<open>dependents\<close> holds the
  labels of the dependent workflows (the source reads only \<open>dep.label\<close>).
\<close>

record workflow =
  label :: string
  workdir :: string
  merge_size :: int
  dependents :: "string list"
  cleanup_input :: bool
  category_name :: string
  unique_arguments :: "string list"
  parent :: "string option"

text \<open>
  The attributes of a task handler that the Task Provider reads. \<open>is_merge\<close> is
  \<open>isinstance(handler, MergeTaskHandler)\<close>.
\<close>

record handler =
  handler_id :: int
  dataset :: string
  unit_source :: string
  outputs :: "(string \<times> string) list"
  output_info :: output_info
  input_files :: "string list"
  is_merge :: bool

text \<open>A completed task as the work queue returns it.\<close>

record wq_task =
  tag :: int
  return_status :: int
  result :: int

text \<open>The class \<open>ReleaseSummary\<close>: its four private dictionaries and lists.\<close>

record release_summary =
  summary_exe :: "(int \<times> string list) list"
  summary_wq :: "(int \<times> string list) list"
  summary_taskdirs :: "(string \<times> string) list"
  summary_monitors :: "string list"

definition summary_init :: release_summary where
  "summary_init = \<lparr>summary_exe = [], summary_wq = [], summary_taskdirs = [], summary_monitors = []\<rparr>"

definition summary_dir :: "string \<Rightarrow> string \<Rightarrow> release_summary \<Rightarrow> release_summary" where
  "summary_dir taskid taskdir s = s\<lparr>summary_taskdirs := AList.update taskid taskdir (summary_taskdirs s)\<rparr>"

text \<open>
  The mutable lists that a task description is assembled from: the parameter document,
  the environment, the input files and the output files.
\<close>

type_synonym task_inputs = "(string \<times> string \<times> bool) list"
type_synonym task_outputs = "(string \<times> string) list"
type_synonym task_env = "(string \<times> string) list"

text \<open>The keyword argument of \<open>wflow.adjust\<close>: \<open>reports=\<close> for a merge task, \<open>unique=\<close> otherwise.\<close>

datatype adjust_kw = Reports "string list" | Unique "string option"

text \<open>A task description: \<open>(category, cmd, id, inputs, outputs, env, jdir)\<close>.\<close>

type_synonym task_descr = "string \<times> string \<times> int \<times> task_inputs \<times> task_outputs \<times> task_env \<times> string"

subsection \<open>Observable effects\<close>

text \<open>
  Every call that leaves the Task Provider is recorded, in order, in a trace: log
  records, calls of the Unit Store, calls of the telemetry collaborator and the messages
  a \<open>Dashboard\<close> sends, reads of the work queue, and file-system operations.
\<close>

datatype log_level = DEBUG | INFO | WARNING | ERROR

datatype log_msg =
    Created_tasks nat string
  | Marked_failed "int list"
  | Skipping_task int
  | Creating_tasks "int list"
  | Summary release_summary
  | Error_removing int exn
  | Elk_failed exn
  | Could_not_update
  | Exception_trace exn

datatype store_call =
    Work_left string
  | Pop_unmerged_tasks string int nat
  | Pop_units string int real
  | Update_missing "int list"
  | Update_units updates
  | Finished_files "(string \<times> string list) list"
  | Register_files "(string \<times> output_info) list" string "string list"
  | Update_transfers transfers
  | Running_tasks
  | Unfinished_units
  | Merged
  | Workflow_status

datatype telemetry_call =
    Update_task_status "(string \<times> string) list"
  | Update_tasks
  | Register_tasks "int list"
  | Free

datatype event =
    Log log_level log_msg
  | Store store_call
  | Telemetry telemetry_call
  | ApMonSend message
  | Queue_task_table
  | Queue_task_state int
  | Util_move string int string
  | Fs_remove "string list"
  | Write_parameters string json
  | Elk_index_task int
  | Elk_index_task_update task_update
  | Elk_index_summary

subsection \<open>Collaborators\<close>

text \<open>
  Modelled from the spec: the Unit Store (\<open>lobster.core.unit.UnitStore\<close>) is not part
  of the sources. Its operations are parameters, with the signatures of the spec's
  section 4.1, over an arbitrary store state \<open>'s\<close>: a claiming or updating operation
  returns the new store state, and the accounting queries (\<open>work_left\<close>,
  \<open>running_tasks\<close>, \<open>unfinished_units\<close>, \<open>merged\<close>) are read-only. The other fields are
  the remaining collaborators of the Task Provider, none of which is part of the sources:
  the allocation algorithm, the workflow and handler methods, the storage object, the
  helpers of \<open>lobster.util\<close> and \<open>lobster.fs\<close>, and the external libraries. A collaborator
  that only computes is a function of its arguments; \<open>fs_remove\<close> and \<open>apMonSend\<close>
  answer with the exception they raise, if any.
\<close>

record 's collaborators =
  work_left :: "'s \<Rightarrow> string \<Rightarrow> int"
  pop_unmerged_tasks :: "'s \<Rightarrow> string \<Rightarrow> int \<Rightarrow> nat \<Rightarrow> taskinfo list \<times> 's"
  pop_units :: "'s \<Rightarrow> string \<Rightarrow> int \<Rightarrow> real \<Rightarrow> taskinfo list \<times> 's"
  update_missing :: "'s \<Rightarrow> int list \<Rightarrow> 's"
  update_units :: "'s \<Rightarrow> updates \<Rightarrow> 's"
  finished_files :: "'s \<Rightarrow> (string \<times> string list) list \<Rightarrow> string list \<times> 's"
  register_files :: "'s \<Rightarrow> (string \<times> output_info) list \<Rightarrow> string \<Rightarrow> string list \<Rightarrow> 's"
  update_transfers :: "'s \<Rightarrow> transfers \<Rightarrow> 's"
  running_tasks :: "'s \<Rightarrow> int list"
  unfinished_units :: "'s \<Rightarrow> int"
  merged :: "'s \<Rightarrow> bool"
  algo_run :: "int \<Rightarrow> (string \<times> int) list \<Rightarrow> (workflow \<times> int) list \<Rightarrow> (string \<times> int \<times> real) list"
  get_outputs :: "workflow \<Rightarrow> int \<Rightarrow> (string \<times> string) list"
  wflow_adjust :: "workflow \<Rightarrow> json \<times> task_env \<times> task_inputs \<times> task_outputs \<Rightarrow> string \<Rightarrow> bool
                     \<Rightarrow> adjust_kw \<Rightarrow> json \<times> task_env \<times> task_inputs \<times> task_outputs"
  wflow_handler :: "workflow \<Rightarrow> int \<Rightarrow> (int \<times> string) list \<Rightarrow> lumi list \<Rightarrow> string \<Rightarrow> bool \<Rightarrow> handler"
  handler_adjust :: "handler \<Rightarrow> json \<times> task_inputs \<times> task_outputs \<Rightarrow> json \<times> task_inputs \<times> task_outputs"
  handler_process :: "handler \<Rightarrow> wq_task \<Rightarrow> release_summary \<Rightarrow> transfers
                     \<Rightarrow> (bool \<times> task_update \<times> file_update \<times> unit_update) \<times> release_summary \<times> transfers"
  storage_preprocess :: "json \<Rightarrow> bool \<Rightarrow> json"
  util_taskdir :: "string \<Rightarrow> int \<Rightarrow> string"
  util_id2dir :: "int \<Rightarrow> string"
  util_move :: "string \<Rightarrow> int \<Rightarrow> string \<Rightarrow> string"
  isfile :: "string \<Rightarrow> bool"
  fs_remove :: "string list \<Rightarrow> exn option"
  elk_index_summary :: "'s \<Rightarrow> exn option"
  apMonSend :: "message \<Rightarrow> exn option"
  sha1_hexdigest :: "string \<Rightarrow> string"

text \<open>The configuration and the attributes of a \<open>TaskProvider\<close> that never change.\<close>

record config =
  workflows :: "workflow list"
  elk :: bool
  provider_workdir :: string
  provider_taskid :: string
  provider_inputs :: task_inputs
  host :: string
  provider_ce :: string
  provider_se :: string
  cvmfs_proxy :: string
  frontier_proxy :: string
  osg_version :: string

text \<open>
  The mutable state of a \<open>TaskProvider\<close>: the Unit Store, the private dictionary
  \<open>__taskhandlers\<close>, the monitor object \<open>config.advanced.dashboard\<close> (a plain
  \<open>Monitor\<close>, whose methods do nothing, or a \<open>Dashboard\<close>), and the trace of effects.
\<close>

datatype monitor = Monitor | Dashboard dashboard

record 's provider =
  store :: 's
  taskhandlers :: "(int \<times> handler) list"
  monitor :: monitor
  trace :: "event list"

section \<open>lobster/cmssw/dash.py: the class Dashboard\<close>

text \<open>\<open>Dashboard.__init__\<close>, for the fields modelled.\<close>

definition dashboard_init :: "int \<Rightarrow> string \<Rightarrow> string \<Rightarrow> dashboard" where
  "dashboard_init ival wfid site =
     \<lparr>interval = ival, previous = 0, states = [], workflowid = wfid, ce = site, dash = False\<rparr>"

text \<open>
  \<open>send\<close>: creates the \<open>DashboardAPI\<close> object on first use, then sends the messages one
  by one; an exception of \<open>apMonSend\<close> ends the loop and propagates.
\<close>

fun apmon_send_all :: "(message \<Rightarrow> exn option) \<Rightarrow> message list \<Rightarrow> exn option \<times> event list" where
  "apmon_send_all f [] = (None, [])"
| "apmon_send_all f (m # ms) =
     (case f m of
        Some e \<Rightarrow> (Some e, [])
      | None \<Rightarrow> (case apmon_send_all f ms of (r, evs) \<Rightarrow> (r, ApMonSend m # evs)))"

definition send :: "'s collaborators \<Rightarrow> string \<Rightarrow> message list \<Rightarrow> dashboard
    \<Rightarrow> exn option \<times> dashboard \<times> event list" where
  "send c kind data d =
     (case apmon_send_all (apMonSend c) (map (\<lambda>params. params\<lparr>MessageType := kind\<rparr>) data) of
        (r, evs) \<Rightarrow> (r, d\<lparr>dash := True\<rparr>, evs))"

definition generate_ids :: "'s collaborators \<Rightarrow> dashboard \<Rightarrow> string \<Rightarrow> string \<times> string" where
  "generate_ids c d taskid =
     (let h = sha1_hexdigest c (workflowid d);
          seid = ''https://'' @ ce d @ ''/'' @ drop (length h - 16) h;
          monitorid = taskid @ ''_'' @ seid @ ''/'' @ taskid;
          syncid = ''https://'' @ ce d @ ''//'' @ workflowid d @ ''//12345.'' @ taskid
      in (monitorid, syncid))"

text \<open>
  \<open>update_task_status\<close>. The ids arrive as strings: a caller that passes integer ids is
  modelled with \<open>str_int\<close>, which is how \<open>format\<close> prints them.
\<close>

definition status_message :: "'s collaborators \<Rightarrow> dashboard \<Rightarrow> string \<times> string \<Rightarrow> message" where
  "status_message c d = (\<lambda>(tid, status).
     \<lparr>MessageType = [], taskId = workflowid d, jobId = fst (generate_ids c d tid),
      sid = snd (generate_ids c d tid), StatusValue = status\<rparr>)"

definition update_task_status :: "'s collaborators \<Rightarrow> (string \<times> string) list \<Rightarrow> dashboard
    \<Rightarrow> exn option \<times> dashboard \<times> event list" where
  "update_task_status c data d = send c ''JobStatus'' (map (status_message c d) data) d"

text \<open>
  The loop of \<open>update_tasks\<close> over the ids of the queue. \<open>status_map[...]\<close> raises
  \<open>KeyError\<close> for a state outside the table; what the loop has written by then stays.
  \<open>not self.__states.get(id_)\<close> holds for a missing entry and for an empty string.
\<close>

definition falsy :: "string option \<Rightarrow> bool" where
  "falsy v = (case v of None \<Rightarrow> True | Some s \<Rightarrow> s = [])"

definition get_default :: "('k \<times> 'v) list \<Rightarrow> 'k \<Rightarrow> 'v \<Rightarrow> 'v" where
  "get_default d k dflt = (case map_of d k of None \<Rightarrow> dflt | Some v \<Rightarrow> v)"

fun update_tasks_loop :: "queue \<Rightarrow> string list \<Rightarrow> int list
    \<Rightarrow> (int \<times> string) list \<times> (int \<times> string) list \<times> event list
    \<Rightarrow> exn option \<times> (int \<times> string) list \<times> (int \<times> string) list \<times> event list" where
  "update_tasks_loop q exclude [] (data, sts, evs) = (None, data, sts, evs)"
| "update_tasks_loop q exclude (tid # ids) (data, sts, evs) =
     (case status_map (task_state q tid) of
        None \<Rightarrow> (Some KeyError, data, sts, evs @ [Queue_task_state tid])
      | Some status \<Rightarrow>
          if status \<in> set exclude
          then update_tasks_loop q exclude ids (data, sts, evs @ [Queue_task_state tid])
          else if falsy (map_of sts tid) \<or> get_default sts tid status \<noteq> status
          then update_tasks_loop q exclude ids (data, sts, evs @ [Queue_task_state tid])
          else update_tasks_loop q exclude ids
                 (data @ [(tid, status)], AList.update tid status sts, evs @ [Queue_task_state tid]))"

text \<open>
  \<open>update_tasks\<close>. The clock is read twice: \<open>now\<close> for the comparison and \<open>now'\<close> for
  the new value of \<open>__previous\<close>.
\<close>

definition update_tasks :: "'s collaborators \<Rightarrow> real \<Rightarrow> real \<Rightarrow> queue \<Rightarrow> string list \<Rightarrow> dashboard
    \<Rightarrow> exn option \<times> dashboard \<times> event list" where
  "update_tasks c now now' q exclude d =
     (let report = (now > previous d + real_of_int (interval d)) in
      if \<not> report then (None, d, [])
      else
        let d1 = d\<lparr>previous := now'\<rparr> in
        case task_table q of
          Inl e \<Rightarrow> (Some e, d1, [Queue_task_table])
        | Inr ids \<Rightarrow>
            (case update_tasks_loop q exclude ids ([], states d1, [Queue_task_table]) of
               (Some e, data, sts, evs) \<Rightarrow> (Some e, d1\<lparr>states := sts\<rparr>, evs)
             | (None, data, sts, evs) \<Rightarrow>
                 (case update_task_status c (map (\<lambda>(tid, status). (str_int tid, status)) data)
                         (d1\<lparr>states := sts\<rparr>) of
                    (r, d2, evs') \<Rightarrow> (r, d2, evs @ evs'))))"

text \<open>The methods as the Task Provider calls them, on either class of monitor.\<close>

definition monitor_update_task_status :: "'s collaborators \<Rightarrow> (string \<times> string) list \<Rightarrow> monitor
    \<Rightarrow> exn option \<times> monitor \<times> event list" where
  "monitor_update_task_status c data m =
     (case m of
        Monitor \<Rightarrow> (None, Monitor, [])
      | Dashboard d \<Rightarrow> (case update_task_status c data d of (r, d', evs) \<Rightarrow> (r, Dashboard d', evs)))"


text \<open>
  A run of calls on one \<open>Dashboard\<close> object, from its construction on. Only
  \<open>update_tasks\<close> and \<open>update_task_status\<close> are listed: \<open>register_run\<close>,
  \<open>register_tasks\<close> and \<open>free\<close> write none of the fields modelled but \<open>dash\<close>.
  An exception of one call does not end the run: the callers go on using the object.
\<close>

datatype dashboard_call =
    Call_update_tasks real real queue "string list"
  | Call_update_task_status "(string \<times> string) list"

fun dashboard_step :: "'s collaborators \<Rightarrow> dashboard_call \<Rightarrow> dashboard \<Rightarrow> exn option \<times> dashboard \<times> event list" where
  "dashboard_step c (Call_update_tasks now now' q exclude) d = update_tasks c now now' q exclude d"
| "dashboard_step c (Call_update_task_status data) d = update_task_status c data d"

fun dashboard_run :: "'s collaborators \<Rightarrow> dashboard_call list \<Rightarrow> dashboard \<Rightarrow> dashboard" where
  "dashboard_run c [] d = d"
| "dashboard_run c (x # xs) d = dashboard_run c xs (fst (snd (dashboard_step c x d)))"

section \<open>lobster/core/source.py: terminate, done and update\<close>

definition emit :: "event list \<Rightarrow> 's provider \<Rightarrow> 's provider" where
  "emit evs p = p\<lparr>trace := trace p @ evs\<rparr>"

text \<open>
  \<open>terminate\<close>: the generator reads \<open>running_tasks()\<close> and hands one pair per id to
  \<open>update_task_status\<close>.
\<close>

definition terminate :: "'s collaborators \<Rightarrow> 's provider \<Rightarrow> exn option \<times> 's provider" where
  "terminate c p =
     (let data = map (\<lambda>tid. (str_int tid, CANCELLED)) (running_tasks c (store p)) in
      case monitor_update_task_status c data (monitor p) of
        (r, m, evs) \<Rightarrow>
          (r, emit ([Store Running_tasks, Telemetry (Update_task_status data)] @ evs) (p\<lparr>monitor := m\<rparr>)))"

text \<open>\<open>done\<close>: both queries are made, \<open>unfinished_units\<close> first.\<close>

definition provider_done :: "'s collaborators \<Rightarrow> 's provider \<Rightarrow> bool \<times> 's provider" where
  "provider_done c p =
     (let left = unfinished_units c (store p) in
      (merged c (store p) \<and> left = 0, emit [Store Unfinished_units, Store Merged] p))"


section \<open>lobster/core/source.py: release\<close>

text \<open>
  Sequencing of steps that may raise: the next step runs only when the one before
  returned; the state reached when an exception was raised is kept.
\<close>

definition andthen :: "exn option \<times> 'a \<Rightarrow> ('a \<Rightarrow> exn option \<times> 'a) \<Rightarrow> exn option \<times> 'a" where
  "andthen r f = (case r of (None, x) \<Rightarrow> f x | (Some e, x) \<Rightarrow> (Some e, x))"

text \<open>\<open>getattr(self.config.workflows, label)\<close>: the workflow of that label, or \<open>AttributeError\<close>.\<close>

definition workflow_named :: "config \<Rightarrow> string \<Rightarrow> workflow option" where
  "workflow_named cfg l = find (\<lambda>w. label w = l) (workflows cfg)"

text \<open>
  The local variables of \<open>release\<close>. \<open>update_l\<close>, \<open>input_files_l\<close> and \<open>transfers_l\<close>
  are the source's \<open>update\<close>, \<open>input_files\<close> and \<open>transfers\<close>; a set of file names is a
  list without duplicates. The dictionaries keep their keys in the order of insertion.
\<close>

record release_locals =
  fail_cleanup :: "string list"
  merge_cleanup :: "string list"
  input_cleanup :: "string list"
  update_l :: updates
  propagate :: "(string \<times> (string \<times> output_info) list) list"
  input_files_l :: "(string \<times> string list) list"
  summary :: release_summary
  transfers_l :: transfers

definition release_locals_init :: release_locals where
  "release_locals_init =
     \<lparr>fail_cleanup = [], merge_cleanup = [], input_cleanup = [], update_l = [], propagate = [],
      input_files_l = [], summary = summary_init, transfers_l = []\<rparr>"

text \<open>\<open>propagate[label][outfn]\<close>, if the entry exists.\<close>

definition propagated :: "(string \<times> (string \<times> output_info) list) list \<Rightarrow> string \<Rightarrow> string \<Rightarrow> output_info option" where
  "propagated pr l fn = map_of (get_default pr l []) fn"

text \<open>
  The block \<open>with self.measure('handler')\<close> of the loop of \<open>release\<close> (lines 474 to 494).
\<close>

definition handle_result :: "'s collaborators \<Rightarrow> handler \<Rightarrow> workflow \<Rightarrow> bool \<Rightarrow> file_update
    \<Rightarrow> 's provider \<times> release_locals \<Rightarrow> 's provider \<times> release_locals" where
  "handle_result c h wflow failed file_update = (\<lambda>(p, a).
     if failed then
       (let faildir = util_move c (workdir wflow) (handler_id h) ''failed'' in
        (emit [Util_move (workdir wflow) (handler_id h) ''failed''] p,
         a\<lparr>summary := summary_dir (str_int (handler_id h)) faildir (summary a),
           fail_cleanup := fail_cleanup a @ map snd (outputs h)\<rparr>))
     else
       (let mrg = is_merge h;
            a1 = (if (merge_size wflow \<le> 0 \<or> mrg) \<and> length (outputs h) > 0
                  then (let outfn = snd (hd (outputs h)); outinfo = output_info h in
                        a\<lparr>propagate :=
                            fold (\<lambda>dep pr. dd_modify dep [] (AList.update outfn outinfo) pr)
                              (dependents wflow) (propagate a)\<rparr>)
                  else a);
            a2 = (if mrg then a1\<lparr>merge_cleanup := merge_cleanup a1 @ input_files h\<rparr> else a1);
            a3 = (if cleanup_input wflow
                  then a2\<lparr>input_files_l :=
                             dd_modify (dataset h) []
                               (\<lambda>fs. List.union fs (remdups (map (\<lambda>(x, y, f). f) file_update)))
                               (input_files_l a2)\<rparr>
                  else a2)
        in (emit [Util_move (workdir wflow) (handler_id h) ''successful''] p, a3)))"

text \<open>
  The body of the loop \<open>for task in tasks\<close>. \<open>self.__taskhandlers[task.tag]\<close> raises
  \<open>KeyError\<close> when the tag has no handler.
\<close>

definition release_task :: "'s collaborators \<Rightarrow> config \<Rightarrow> wq_task \<Rightarrow> 's provider \<times> release_locals
    \<Rightarrow> exn option \<times> 's provider \<times> release_locals" where
  "release_task c cfg task = (\<lambda>(p, a).
     case map_of (taskhandlers p) (tag task) of
       None \<Rightarrow> (Some KeyError, p, a)
     | Some h \<Rightarrow>
         (case handler_process c h task (summary a) (transfers_l a) of
            ((failed, task_update, file_update, unit_update), summ, tr) \<Rightarrow>
              (let a1 = a\<lparr>summary := summ, transfers_l := tr\<rparr> in
               case workflow_named cfg (dataset h) of
                 None \<Rightarrow> (Some AttributeError, p, a1)
               | Some wflow \<Rightarrow>
                   (let p1 = (if elk cfg
                              then emit [Elk_index_task (tag task), Elk_index_task_update task_update] p
                              else p)
                    in case handle_result c h wflow failed file_update (p1, a1) of
                         (p2, a2) \<Rightarrow>
                           (None,
                            p2\<lparr>taskhandlers := AList.delete (tag task) (taskhandlers p2)\<rparr>,
                            a2\<lparr>update_l :=
                                  dd_modify (dataset h, unit_source h) []
                                    (\<lambda>l. l @ [(task_update, file_update, unit_update)]) (update_l a2)\<rparr>)))))"

fun release_loop :: "'s collaborators \<Rightarrow> config \<Rightarrow> wq_task list \<Rightarrow> 's provider \<times> release_locals
    \<Rightarrow> exn option \<times> 's provider \<times> release_locals" where
  "release_loop c cfg [] pa = (None, pa)"
| "release_loop c cfg (task # tasks) pa = andthen (release_task c cfg task pa) (release_loop c cfg tasks)"

text \<open>The two calls \<open>update_task_status((task.tag, status) for task in tasks)\<close>.\<close>

definition report_status :: "'s collaborators \<Rightarrow> string \<Rightarrow> wq_task list \<Rightarrow> 's provider \<Rightarrow> exn option \<times> 's provider" where
  "report_status c status tasks p =
     (let data = map (\<lambda>task. (str_int (tag task), status)) tasks in
      case monitor_update_task_status c data (monitor p) of
        (r, m, evs) \<Rightarrow> (r, emit (Telemetry (Update_task_status data) # evs) (p\<lparr>monitor := m\<rparr>)))"

text \<open>\<open>if len(update) > 0\<close>: the summary is logged and the updates are committed.\<close>

definition commit_updates :: "'s collaborators \<Rightarrow> release_locals \<Rightarrow> 's provider \<Rightarrow> exn option \<times> 's provider" where
  "commit_updates c a p =
     (if length (update_l a) > 0
      then (None, emit [Log INFO (Summary (summary a)), Store (Update_units (update_l a))]
                    (p\<lparr>store := update_units c (store p) (update_l a)\<rparr>))
      else (None, p))"

text \<open>
  One round of the loop \<open>for cleanup in [fail_cleanup, merge_cleanup + input_cleanup]\<close>:
  \<open>IOError\<close> and \<open>OSError\<close> are passed over, \<open>ValueError\<close> is logged with the tag of
  the last task of the loop before, and any other exception propagates.
\<close>

definition remove_files :: "'s collaborators \<Rightarrow> wq_task list \<Rightarrow> string list \<Rightarrow> 's provider \<Rightarrow> exn option \<times> 's provider" where
  "remove_files c tasks cleanup p =
     (if length cleanup > 0
      then (case fs_remove c cleanup of
              None \<Rightarrow> (None, emit [Fs_remove cleanup] p)
            | Some e \<Rightarrow>
                if e = IOError \<or> e = OSError then (None, emit [Fs_remove cleanup] p)
                else if e = ValueError
                then (case tasks of
                        [] \<Rightarrow> (Some (OtherException ''NameError''), emit [Fs_remove cleanup] p)
                      | _ \<Rightarrow> (None, emit [Fs_remove cleanup, Log ERROR (Error_removing (tag (last tasks)) e)] p))
                else (Some e, emit [Fs_remove cleanup] p))
      else (None, p))"

text \<open>The block \<open>with self.measure('cleanup')\<close>.\<close>

definition cleanup_files :: "'s collaborators \<Rightarrow> wq_task list \<Rightarrow> release_locals \<Rightarrow> 's provider \<Rightarrow> exn option \<times> 's provider" where
  "cleanup_files c tasks a p =
     (case (if length (input_files_l a) > 0
            then (case finished_files c (store p) (input_files_l a) of
                    (fs, s') \<Rightarrow> (input_cleanup a @ fs,
                                 emit [Store (Finished_files (input_files_l a))] (p\<lparr>store := s'\<rparr>)))
            else (input_cleanup a, p)) of
        (input_cleanup', p1) \<Rightarrow>
          andthen (remove_files c tasks (fail_cleanup a) p1)
            (remove_files c tasks (merge_cleanup a @ input_cleanup')))"

text \<open>The block \<open>with self.measure('propagate')\<close>, over the items of \<open>propagate\<close>.\<close>

fun register_outputs :: "'s collaborators \<Rightarrow> config \<Rightarrow> (string \<times> (string \<times> output_info) list) list
    \<Rightarrow> 's provider \<Rightarrow> exn option \<times> 's provider" where
  "register_outputs c cfg [] p = (None, p)"
| "register_outputs c cfg ((lbl, infos) # rest) p =
     (case workflow_named cfg lbl of
        None \<Rightarrow> (Some AttributeError, p)
      | Some wflow \<Rightarrow>
          register_outputs c cfg rest
            (emit [Store (Register_files infos lbl (unique_arguments wflow))]
               (p\<lparr>store := register_files c (store p) infos lbl (unique_arguments wflow)\<rparr>)))"

definition commit_transfers :: "'s collaborators \<Rightarrow> release_locals \<Rightarrow> 's provider \<Rightarrow> exn option \<times> 's provider" where
  "commit_transfers c a p =
     (if length (transfers_l a) > 0
      then (None, emit [Store (Update_transfers (transfers_l a))]
                    (p\<lparr>store := update_transfers c (store p) (transfers_l a)\<rparr>))
      else (None, p))"

text \<open>The last block: the summary is indexed, and an exception of the indexer is logged.\<close>

definition index_summary :: "'s collaborators \<Rightarrow> config \<Rightarrow> 's provider \<Rightarrow> exn option \<times> 's provider" where
  "index_summary c cfg p =
     (if elk cfg
      then (case elk_index_summary c (store p) of
              None \<Rightarrow> (None, emit [Store Workflow_status, Elk_index_summary] p)
            | Some e \<Rightarrow> (None, emit [Store Workflow_status, Elk_index_summary, Log ERROR (Elk_failed e)] p))
      else (None, p))"

text \<open>What \<open>release\<close> does after its loop, with the locals the loop has filled.\<close>

definition release_commit :: "'s collaborators \<Rightarrow> config \<Rightarrow> wq_task list \<Rightarrow> release_locals \<Rightarrow> 's provider
    \<Rightarrow> exn option \<times> 's provider" where
  "release_commit c cfg tasks a p =
     andthen (andthen (andthen (andthen (andthen
       (report_status c RETRIEVED tasks p)
       (commit_updates c a))
       (cleanup_files c tasks a))
       (register_outputs c cfg (propagate a)))
       (commit_transfers c a))
       (index_summary c cfg)"

definition release :: "'s collaborators \<Rightarrow> config \<Rightarrow> wq_task list \<Rightarrow> 's provider \<Rightarrow> exn option \<times> 's provider" where
  "release c cfg tasks p =
     (case report_status c DONE tasks p of
        (Some e, p0) \<Rightarrow> (Some e, p0)
      | (None, p0) \<Rightarrow>
          (case release_loop c cfg tasks (p0, release_locals_init) of
             (Some e, p1, a) \<Rightarrow> (Some e, p1)
           | (None, p1, a) \<Rightarrow> release_commit c cfg tasks a p1))"

section \<open>lobster/core/source.py: obtain\<close>

definition get_report :: "'s collaborators \<Rightarrow> config \<Rightarrow> string \<Rightarrow> int \<Rightarrow> string" where
  "get_report c cfg lbl task =
     path_join (path_join (path_join (path_join (provider_workdir cfg) lbl) ''successful'')
       (util_id2dir c task)) ''report.json''"

text \<open>The first loop: merge tasks are claimed for every workflow, at most 10 batches each.\<close>

fun pop_merges :: "'s collaborators \<Rightarrow> workflow list \<Rightarrow> 's provider \<Rightarrow> taskinfo list \<times> 's provider" where
  "pop_merges c [] p = ([], p)"
| "pop_merges c (wflow # ws) p =
     (case pop_unmerged_tasks c (store p) (label wflow) (merge_size wflow) 10 of
        (infos, s') \<Rightarrow>
          (case pop_merges c ws
                  (emit [Store (Pop_unmerged_tasks (label wflow) (merge_size wflow) 10)] (p\<lparr>store := s'\<rparr>)) of
             (rest, p') \<Rightarrow> (infos @ rest, p')))"

text \<open>The second loop: units are claimed as the allocation algorithm directs.\<close>

fun pop_new :: "'s collaborators \<Rightarrow> (string \<times> int \<times> real) list \<Rightarrow> 's provider \<Rightarrow> taskinfo list \<times> 's provider" where
  "pop_new c [] p = ([], p)"
| "pop_new c ((lbl, ntasks, taper) # ds) p =
     (case pop_units c (store p) lbl ntasks taper of
        (infos, s') \<Rightarrow>
          (case pop_new c ds
                  (emit [Store (Pop_units lbl ntasks taper), Log DEBUG (Created_tasks (length infos) lbl)]
                     (p\<lparr>store := s'\<rparr>)) of
             (rest, p') \<Rightarrow> (infos @ rest, p')))"

text \<open>
  \<open>register_tasks\<close> as \<open>zip\<close> consumes it: one pair of ids per task id. \<open>zip\<close> stops
  when its first argument, the list of ids, is exhausted, so the generator of a
  \<open>Dashboard\<close> is never resumed after its last \<open>yield\<close> and its final \<open>send\<close> is not reached.
\<close>

definition monitor_register_tasks :: "'s collaborators \<Rightarrow> monitor \<Rightarrow> int list \<Rightarrow> (string option \<times> string option) list" where
  "monitor_register_tasks c m ids =
     (case m of
        Monitor \<Rightarrow> map (\<lambda>tid. (None, None)) ids
      | Dashboard d \<Rightarrow>
          map (\<lambda>tid. (Some (fst (generate_ids c d (str_int tid))), Some (snd (generate_ids c d (str_int tid))))) ids)"

definition json_opt :: "string option \<Rightarrow> json" where
  "json_opt v = (case v of None \<Rightarrow> JNone | Some x \<Rightarrow> JStr x)"

definition initial_parameters :: "config \<Rightarrow> string option \<Rightarrow> string option \<Rightarrow> json" where
  "initial_parameters cfg monitorid syncid =
     JDict [(''mask'', JDict [(''files'', JNone), (''lumis'', JNone), (''events'', JNone)]),
            (''monitoring'', JDict [(''monitorid'', json_opt monitorid), (''syncid'', json_opt syncid),
                                    (''taskid'', JStr (provider_taskid cfg))]),
            (''default host'', JStr (host cfg)),
            (''default ce'', JStr (provider_ce cfg)),
            (''default se'', JStr (provider_se cfg)),
            (''arguments'', JNone),
            (''output files'', JList []),
            (''want summary'', JBool True),
            (''executable'', JNone),
            (''pset'', JNone),
            (''prologue'', JNone),
            (''epilogue'', JNone),
            (''gridpack'', JBool False)]"

definition initial_env :: "config \<Rightarrow> task_env" where
  "initial_env cfg =
     [(''LOBSTER_CVMFS_PROXY'', cvmfs_proxy cfg),
      (''LOBSTER_FRONTIER_PROXY'', frontier_proxy cfg),
      (''LOBSTER_OSG_VERSION'', osg_version cfg)]"

definition cmd :: string where
  "cmd = ''sh wrapper.sh python task.py parameters.json''"

text \<open>
  The loop over the constituents of a merge task (\<open>for task, _, _, _ in lumis\<close>): the
  missing tasks, the input files and the reports found. \<open>list(wflow.get_outputs(task))[0]\<close>
  raises \<open>IndexError\<close> on a task without outputs.
\<close>

fun scan_constituents :: "'s collaborators \<Rightarrow> config \<Rightarrow> workflow \<Rightarrow> string \<Rightarrow> lumi list
    \<Rightarrow> int list \<times> (int \<times> string) list \<times> string list
    \<Rightarrow> exn + (int list \<times> (int \<times> string) list \<times> string list)" where
  "scan_constituents c cfg wflow lbl [] acc = Inr acc"
| "scan_constituents c cfg wflow lbl ((task, x, y, z) # ls) (missing, infiles, inreports) =
     (let report = get_report c cfg lbl task in
      case get_outputs c wflow task of
        [] \<Rightarrow> Inl IndexError
      | (rf, infile) # others \<Rightarrow>
          if isfile c report
          then scan_constituents c cfg wflow lbl ls (missing, infiles @ [(task, infile)], inreports @ [report])
          else scan_constituents c cfg wflow lbl ls (missing @ [task], infiles, inreports))"

text \<open>
  In the words of the spec: the missing inputs of a merge task are the constituent tasks
  whose report is not a file on disk; a task of new units has none.
\<close>

definition missing_inputs :: "'s collaborators \<Rightarrow> config \<Rightarrow> taskinfo \<Rightarrow> int list" where
  "missing_inputs c cfg = (\<lambda>(tid, lbl, files, lumis, unique_arg, mrg).
     if mrg then filter (\<lambda>task. \<not> isfile c (get_report c cfg lbl task)) (map fst lumis) else [])"

text \<open>
  From the creation of the handler to the end of the loop body: the handler is made, the
  parameter document is adjusted and written, the task description is appended and the
  handler is stored under the task id.
\<close>

definition finish_task :: "'s collaborators \<Rightarrow> workflow \<Rightarrow> int \<Rightarrow> (int \<times> string) list \<Rightarrow> lumi list \<Rightarrow> string \<Rightarrow> bool
    \<Rightarrow> json \<times> task_env \<times> task_inputs \<times> task_outputs
    \<Rightarrow> 's provider \<times> task_descr list \<Rightarrow> 's provider \<times> task_descr list" where
  "finish_task c wflow tid files lumis jdir mrg = (\<lambda>(config, env, inputs, outs) (p, tasks).
     let h = wflow_handler c wflow tid files lumis jdir mrg;
         config1 = storage_preprocess c config (mrg \<or> parent wflow \<noteq> None)
     in case handler_adjust c h (config1, inputs, outs) of
          (config2, inputs2, outs2) \<Rightarrow>
            (emit [Write_parameters (path_join jdir ''parameters.json'') config2]
               (p\<lparr>taskhandlers := AList.update tid h (taskhandlers p)\<rparr>),
             tasks @ [(if mrg then ''merge'' else category_name wflow, cmd, tid, inputs2, outs2, env, jdir)]))"

text \<open>The body of the loop over the TaskInfos.\<close>

definition assemble_task :: "'s collaborators \<Rightarrow> config \<Rightarrow> (int \<times> string option \<times> string option) list \<Rightarrow> taskinfo
    \<Rightarrow> 's provider \<times> task_descr list \<times> int list
    \<Rightarrow> exn option \<times> 's provider \<times> task_descr list \<times> int list" where
  "assemble_task c cfg registration = (\<lambda>(tid, lbl, files, lumis, unique_arg, mrg) (p, tasks, ids).
     case workflow_named cfg lbl of
       None \<Rightarrow> (Some AttributeError, p, tasks, ids)
     | Some wflow \<Rightarrow>
         (let jdir = util_taskdir c (workdir wflow) tid;
              inputs = provider_inputs cfg @ [(path_join jdir ''parameters.json'', ''parameters.json'', False)];
              outs = [(path_join jdir ''report.json'', ''report.json'')]
          in case map_of registration tid of
               None \<Rightarrow> (Some KeyError, p, tasks, ids @ [tid])
             | Some (monitorid, syncid) \<Rightarrow>
                 (let config = initial_parameters cfg monitorid syncid;
                      env = initial_env cfg
                  in if mrg then
                       (case scan_constituents c cfg wflow lbl lumis ([], [], []) of
                          Inl e \<Rightarrow> (Some e, p, tasks, ids @ [tid])
                        | Inr (missing, infiles, inreports) \<Rightarrow>
                            (let p1 = (if length missing > 0
                                       then emit [Log WARNING (Marked_failed missing), Store (Update_missing missing)]
                                              (p\<lparr>store := update_missing c (store p) missing\<rparr>)
                                       else p);
                                 p2 = (if length infiles \<le> 1 then emit [Log DEBUG (Skipping_task tid)] p1 else p1)
                             in case finish_task c wflow tid infiles lumis jdir mrg
                                       (wflow_adjust c wflow (config, env, inputs, outs) jdir mrg (Reports inreports))
                                       (p2, tasks) of
                                  (p3, tasks') \<Rightarrow> (None, p3, tasks', ids @ [tid])))
                     else
                       (case finish_task c wflow tid files lumis jdir mrg
                               (wflow_adjust c wflow (config, env, inputs, outs) jdir mrg (Unique unique_arg))
                               (p, tasks) of
                          (p3, tasks') \<Rightarrow> (None, p3, tasks', ids @ [tid])))))"

fun assemble_all :: "'s collaborators \<Rightarrow> config \<Rightarrow> (int \<times> string option \<times> string option) list \<Rightarrow> taskinfo list
    \<Rightarrow> 's provider \<times> task_descr list \<times> int list
    \<Rightarrow> exn option \<times> 's provider \<times> task_descr list \<times> int list" where
  "assemble_all c cfg registration [] st = (None, st)"
| "assemble_all c cfg registration (ti # tis) st =
     andthen (assemble_task c cfg registration ti st) (assemble_all c cfg registration tis)"

text \<open>
  \<open>obtain\<close>. \<open>dict(zip(ids, ...))\<close> keeps the last pair of an id that occurs twice, so
  the model looks an id up in the reversed list of pairs. When an exception is raised
  the caller receives no task descriptions; what was done until then stays done.
\<close>

definition obtain_tasks :: "'s collaborators \<Rightarrow> config \<Rightarrow> int \<Rightarrow> (string \<times> int) list \<Rightarrow> 's provider
    \<Rightarrow> exn option \<times> task_descr list \<times> 's provider" where
  "obtain_tasks c cfg total_cores tasks p =
     (let remaining = map (\<lambda>wflow. (wflow, work_left c (store p) (label wflow))) (workflows cfg);
          p0 = emit (map (\<lambda>wflow. Store (Work_left (label wflow))) (workflows cfg)) p
      in case pop_merges c (workflows cfg) p0 of
           (merge_infos, p1) \<Rightarrow>
             (case pop_new c (algo_run c total_cores tasks remaining) p1 of
                (unit_infos, p2) \<Rightarrow>
                  (let taskinfos = merge_infos @ unit_infos in
                   if taskinfos = [] then (None, [], p2)
                   else
                     (let ids0 = map fst taskinfos;
                          registration = rev (zip ids0 (monitor_register_tasks c (monitor p2) ids0));
                          p3 = emit [Telemetry (Register_tasks ids0)] p2
                      in case assemble_all c cfg registration taskinfos (p3, [], []) of
                           (Some e, p4, descrs, ids) \<Rightarrow> (Some e, [], p4)
                         | (None, p4, descrs, ids) \<Rightarrow>
                             (None, descrs, emit [Log INFO (Creating_tasks ids), Telemetry Free] p4)))))"

subsection \<open>Projections of a trace\<close>

fun sent_messages :: "event list \<Rightarrow> message list" where
  "sent_messages [] = []"
| "sent_messages (ApMonSend m # evs) = m # sent_messages evs"
| "sent_messages (ev # evs) = sent_messages evs"

fun store_calls :: "event list \<Rightarrow> store_call list" where
  "store_calls [] = []"
| "store_calls (Store x # evs) = x # store_calls evs"
| "store_calls (ev # evs) = store_calls evs"

fun telemetry_calls :: "event list \<Rightarrow> telemetry_call list" where
  "telemetry_calls [] = []"
| "telemetry_calls (Telemetry x # evs) = x # telemetry_calls evs"
| "telemetry_calls (ev # evs) = telemetry_calls evs"

fun log_records :: "event list \<Rightarrow> (log_level \<times> log_msg) list" where
  "log_records [] = []"
| "log_records (Log l m # evs) = (l, m) # log_records evs"
| "log_records (ev # evs) = log_records evs"

fun moves :: "event list \<Rightarrow> (string \<times> int \<times> string) list" where
  "moves [] = []"
| "moves (Util_move d i area # evs) = (d, i, area) # moves evs"
| "moves (ev # evs) = moves evs"

fun claim_calls :: "event list \<Rightarrow> store_call list" where
  "claim_calls [] = []"
| "claim_calls (Store (Pop_unmerged_tasks l m n) # evs) = Pop_unmerged_tasks l m n # claim_calls evs"
| "claim_calls (Store (Pop_units l n t) # evs) = Pop_units l n t # claim_calls evs"
| "claim_calls (ev # evs) = claim_calls evs"

fun status_updates :: "event list \<Rightarrow> (string \<times> string) list list" where
  "status_updates [] = []"
| "status_updates (Telemetry (Update_task_status d) # evs) = d # status_updates evs"
| "status_updates (ev # evs) = status_updates evs"

fun queue_reads :: "event list \<Rightarrow> event list" where
  "queue_reads [] = []"
| "queue_reads (Queue_task_table # evs) = Queue_task_table # queue_reads evs"
| "queue_reads (Queue_task_state i # evs) = Queue_task_state i # queue_reads evs"
| "queue_reads (ev # evs) = queue_reads evs"

text \<open>
  The store that a call leaves behind, as the Unit Store answers it: a claiming or
  updating operation returns the new store, and the accounting queries leave it as it is.
\<close>

fun store_apply :: "'s collaborators \<Rightarrow> store_call \<Rightarrow> 's \<Rightarrow> 's" where
  "store_apply c (Pop_unmerged_tasks l m n) s = snd (pop_unmerged_tasks c s l m n)"
| "store_apply c (Pop_units l n t) s = snd (pop_units c s l n t)"
| "store_apply c (Update_missing ids) s = update_missing c s ids"
| "store_apply c (Update_units u) s = update_units c s u"
| "store_apply c (Finished_files fs) s = snd (finished_files c s fs)"
| "store_apply c (Register_files infos l ua) s = register_files c s infos l ua"
| "store_apply c (Update_transfers t) s = update_transfers c s t"
| "store_apply c call s = s"

text \<open>
  \<open>p'\<close> continues the trace of \<open>p\<close>, and its store is the store of \<open>p\<close> after the store
  calls that were added to the trace, applied in their order.
\<close>

definition replays :: "'s collaborators \<Rightarrow> 's provider \<Rightarrow> 's provider \<Rightarrow> bool" where
  "replays c p p' \<longleftrightarrow>
     take (length (trace p)) (trace p') = trace p
     \<and> store p' = fold (store_apply c) (store_calls (drop (length (trace p)) (trace p'))) (store p)"

section \<open>A small Unit Store and collaborators for concrete runs\<close>

text \<open>
  Modelled from the spec: a ledger that stands for the Unit Store (which is not part of
  the sources) when a theorem is run on concrete inputs. It holds the units with the
  task each is assigned to and their state (the spec's unit lifecycle, and
  \<open>Cancelled\<close> for what the spec calls marking a unit as cancelled), hands out the
  TaskInfos it was given in \<open>unmerged\<close> and \<open>unclaimed\<close>, and records what is committed
  to it. \<open>update_missing\<close> marks the units of the given tasks as failed;
  \<open>running_tasks\<close> lists the tasks that hold an assigned unit; \<open>unfinished_units\<close>
  counts the units that are neither successful nor merged.
\<close>

datatype unit_state = Pending | Assigned | Successful | Failed | Merged_unit | Cancelled

record ledger =
  units :: "(int \<times> int \<times> unit_state) list"
  unmerged :: "(string \<times> taskinfo list) list"
  unclaimed :: "(string \<times> taskinfo list) list"
  committed :: "updates list"
  registered :: "((string \<times> output_info) list \<times> string \<times> string list) list"
  transferred :: "transfers list"

definition ledger_running_tasks :: "ledger \<Rightarrow> int list" where
  "ledger_running_tasks s = remdups (map (fst \<circ> snd) (filter (\<lambda>u. snd (snd u) = Assigned) (units s)))"

definition ledger_unfinished_units :: "ledger \<Rightarrow> int" where
  "ledger_unfinished_units s =
     int (length (filter (\<lambda>u. snd (snd u) \<noteq> Successful \<and> snd (snd u) \<noteq> Merged_unit) (units s)))"

definition ledger_merged :: "ledger \<Rightarrow> bool" where
  "ledger_merged s = list_all (\<lambda>u. snd (snd u) \<noteq> Successful) (units s)"

definition ledger_update_missing :: "ledger \<Rightarrow> int list \<Rightarrow> ledger" where
  "ledger_update_missing s ids =
     s\<lparr>units := map (\<lambda>(u, t, st). if t \<in> set ids then (u, t, Failed) else (u, t, st)) (units s)\<rparr>"

definition ledger_pop_unmerged_tasks :: "ledger \<Rightarrow> string \<Rightarrow> int \<Rightarrow> nat \<Rightarrow> taskinfo list \<times> ledger" where
  "ledger_pop_unmerged_tasks s l msize max_batches =
     (take max_batches (get_default (unmerged s) l []),
      s\<lparr>unmerged := AList.update l (drop max_batches (get_default (unmerged s) l [])) (unmerged s)\<rparr>)"

definition ledger_pop_units :: "ledger \<Rightarrow> string \<Rightarrow> int \<Rightarrow> real \<Rightarrow> taskinfo list \<times> ledger" where
  "ledger_pop_units s l n taper =
     (take (nat n) (get_default (unclaimed s) l []),
      s\<lparr>unclaimed := AList.update l (drop (nat n) (get_default (unclaimed s) l [])) (unclaimed s)\<rparr>)"

definition ledger_work_left :: "ledger \<Rightarrow> string \<Rightarrow> int" where
  "ledger_work_left s l = int (length (get_default (unclaimed s) l []))"

definition demo :: "ledger collaborators" where
  "demo =
     \<lparr>work_left = ledger_work_left,
      pop_unmerged_tasks = ledger_pop_unmerged_tasks,
      pop_units = ledger_pop_units,
      update_missing = ledger_update_missing,
      update_units = (\<lambda>s u. s\<lparr>committed := committed s @ [u]\<rparr>),
      finished_files = (\<lambda>s fs. (concat (map snd fs), s)),
      register_files = (\<lambda>s infos l ua. s\<lparr>registered := registered s @ [(infos, l, ua)]\<rparr>),
      update_transfers = (\<lambda>s t. s\<lparr>transferred := transferred s @ [t]\<rparr>),
      running_tasks = ledger_running_tasks,
      unfinished_units = ledger_unfinished_units,
      merged = ledger_merged,
      algo_run = (\<lambda>total_cores tasks remaining. map (\<lambda>(w, n). (label w, 1, 1)) (filter (\<lambda>(w, n). 0 < n) remaining)),
      get_outputs = (\<lambda>w t. [(''remote'', ''out'')]),
      wflow_adjust = (\<lambda>w setup jdir mrg kw. setup),
      wflow_handler = (\<lambda>w tid files lumis jdir mrg.
         \<lparr>handler_id = tid, dataset = label w, unit_source = ''units'', outputs = [(''remote'', ''out'')],
          output_info = 0, input_files = map snd files, is_merge = mrg\<rparr>),
      handler_adjust = (\<lambda>h setup. setup),
      handler_process = (\<lambda>h t summ tr. ((return_status t \<noteq> 0, tag t, [], []), summ, tr)),
      storage_preprocess = (\<lambda>cfg b. cfg),
      util_taskdir = (\<lambda>wd tid. wd),
      util_id2dir = (\<lambda>tid. if tid = 1 then ''0001'' else if tid = 2 then ''0002'' else ''0000''),
      util_move = (\<lambda>wd tid area. area),
      isfile = (\<lambda>f. True),
      fs_remove = (\<lambda>fs. None),
      elk_index_summary = (\<lambda>s. None),
      apMonSend = (\<lambda>m. None),
      sha1_hexdigest = (\<lambda>s. ''0123456789abcdef'')\<rparr>"

definition ledger_init :: ledger where
  "ledger_init = \<lparr>units = [], unmerged = [], unclaimed = [], committed = [], registered = [], transferred = []\<rparr>"

definition two_running :: "ledger provider" where
  "two_running =
     \<lparr>store = ledger_init\<lparr>units := [(1, 10, Assigned), (2, 11, Assigned)]\<rparr>,
      taskhandlers = [], monitor = Dashboard (dashboard_init 300 ''wf'' ''site''), trace = []\<rparr>"


definition running_queue :: queue where
  "running_queue = \<lparr>task_table = Inr [10, 11], task_state = (\<lambda>i. WORK_QUEUE_TASK_RUNNING)\<rparr>"

text \<open>Two workflows, a parent and its dependent, and two returned tasks of the parent.\<close>

definition wf_a :: workflow where
  "wf_a = \<lparr>label = ''a'', workdir = ''work/a'', merge_size = 0, dependents = [''b''],
     cleanup_input = False, category_name = ''cat'', unique_arguments = [], parent = None\<rparr>"

definition wf_b :: workflow where
  "wf_b = \<lparr>label = ''b'', workdir = ''work/b'', merge_size = 10, dependents = [],
     cleanup_input = False, category_name = ''cat'', unique_arguments = [], parent = Some ''a''\<rparr>"

definition demo_config :: config where
  "demo_config = \<lparr>workflows = [wf_a, wf_b], elk = False, provider_workdir = ''work'',
     provider_taskid = ''lobster_x'', provider_inputs = [], host = ''h'', provider_ce = ''ce'',
     provider_se = ''se'', cvmfs_proxy = ''p1'', frontier_proxy = ''p2'', osg_version = ''3''\<rparr>"

definition handler_for :: "string \<Rightarrow> int \<Rightarrow> handler" where
  "handler_for l tid = \<lparr>handler_id = tid, dataset = l, unit_source = ''units'',
     outputs = [(''remote'', ''out'')], output_info = 7, input_files = [], is_merge = False\<rparr>"

definition two_handlers :: "ledger provider" where
  "two_handlers = \<lparr>store = ledger_init, taskhandlers = [(10, handler_for ''a'' 10), (11, handler_for ''a'' 11)],
      monitor = Monitor, trace = []\<rparr>"

definition task_ok :: wq_task where "task_ok = \<lparr>tag = 10, return_status = 0, result = 0\<rparr>"

definition task_bad :: wq_task where "task_bad = \<lparr>tag = 11, return_status = 1, result = 0\<rparr>"

definition demo_io :: "ledger collaborators" where
  "demo_io = demo\<lparr>fs_remove := (\<lambda>fs. Some IOError)\<rparr>"

definition released :: "ledger provider" where
  "released =
     \<lparr>store = ledger_init\<lparr>committed := [[((''a'', ''units''), [(10, [], []), (11, [], [])])]],
                           registered := [([(''out'', 7)], ''b'', [])]\<rparr>,
      taskhandlers = [], monitor = Monitor,
      trace =
        [Telemetry (Update_task_status [(str_int 10, DONE), (str_int 11, DONE)]),
         Util_move ''work/a'' 10 ''successful'',
         Util_move ''work/a'' 11 ''failed'',
         Telemetry (Update_task_status [(str_int 10, RETRIEVED), (str_int 11, RETRIEVED)]),
         Log INFO (Summary \<lparr>summary_exe = [], summary_wq = [],
                            summary_taskdirs = [(str_int 11, ''failed'')], summary_monitors = []\<rparr>),
         Store (Update_units [((''a'', ''units''), [(10, [], []), (11, [], [])])]),
         Fs_remove [''out''],
         Store (Register_files [(''out'', 7)] ''b'' [])]\<rparr>"

text \<open>
  A store with one merge task ready for workflow b, whose constituents are the tasks 1
  and 2, and one task of new units ready for workflow a; and collaborators for which only
  the report of task 1 is a file.
\<close>

definition merge_ready :: "ledger provider" where
  "merge_ready = \<lparr>store = ledger_init\<lparr>units := [(1, 1, Successful), (2, 2, Successful)],
        unmerged := [(''b'', [(5, ''b'', [], [(1, 0, 0, 0), (2, 0, 0, 0)], None, True)])],
        unclaimed := [(''a'', [(6, ''a'', [(1, ''f1'')], [(1, 1, 1, 1)], None, False)])]\<rparr>,
      taskhandlers = [], monitor = Monitor, trace = []\<rparr>"

definition demo_missing :: "ledger collaborators" where
  "demo_missing = demo\<lparr>isfile := (\<lambda>f. f = ''work/b/successful/0001/report.json'')\<rparr>"

definition merge_info :: taskinfo where
  "merge_info = (5, ''b'', [], [(1, 0, 0, 0), (2, 0, 0, 0)], None, True)"

section \<open>Properties of the Dashboard and of terminate, done and update\<close>

lemma apmon_send_all_ok:
  "\<forall>m \<in> set ms. f m = None \<Longrightarrow> apmon_send_all f ms = (None, map ApMonSend ms)"
  by (induction ms) auto

lemma sent_messages_append: "sent_messages (xs @ ys) = sent_messages xs @ sent_messages ys"
  by (induction xs rule: sent_messages.induct) auto

lemma store_calls_append: "store_calls (xs @ ys) = store_calls xs @ store_calls ys"
  by (induction xs rule: store_calls.induct) auto

lemma telemetry_calls_append: "telemetry_calls (xs @ ys) = telemetry_calls xs @ telemetry_calls ys"
  by (induction xs rule: telemetry_calls.induct) auto

lemma log_records_append: "log_records (xs @ ys) = log_records xs @ log_records ys"
  by (induction xs rule: log_records.induct) auto

lemma send_states: "send c kind data d = (r, d', evs) \<Longrightarrow> states d' = states d"
  by (auto simp: send_def split: prod.splits)

lemma update_task_status_states:
  "update_task_status c data d = (r, d', evs) \<Longrightarrow> states d' = states d"
  unfolding update_task_status_def by (rule send_states)

text \<open>
  With an empty state map the loop of \<open>update_tasks\<close> appends nothing to \<open>data\<close> and
  writes nothing to the map: every id fails the test \<open>not self.__states.get(id_)\<close>.
\<close>

lemma update_tasks_loop_empty:
  "update_tasks_loop q exclude ids (data, [], evs) = (r, data', sts', evs') \<Longrightarrow> data' = data \<and> sts' = []"
  by (induction ids arbitrary: evs) (auto simp: falsy_def split: option.splits if_splits)

lemma update_tasks_loop_events:
  "update_tasks_loop q exclude ids (data, sts, evs) = (r, data', sts', evs') \<Longrightarrow>
     sent_messages evs' = sent_messages evs"
  by (induction ids arbitrary: data sts evs)
     (auto simp: sent_messages_append split: option.splits if_splits)

lemma update_tasks_states_empty:
  assumes "states d = []" and "update_tasks c now now' q exclude d = (r, d', evs)"
  shows "states d' = [] \<and> sent_messages evs = []"
proof (cases "now > previous d + real_of_int (interval d)")
  case False
  with assms show ?thesis by (simp add: update_tasks_def)
next
  case True
  show ?thesis
  proof (cases "task_table q")
    case (Inl e)
    with True assms show ?thesis by (auto simp: update_tasks_def)
  next
    case (Inr ids)
    obtain r0 data sts evs0 where
      l: "update_tasks_loop q exclude ids ([], [], [Queue_task_table]) = (r0, data, sts, evs0)"
      by (metis prod_cases4)
    from update_tasks_loop_empty[OF l] have e: "data = []" "sts = []" by simp_all
    have q: "sent_messages evs0 = []" using l update_tasks_loop_events by simp
    show ?thesis
      using True Inr assms l e q
      by (auto simp: update_tasks_def update_task_status_def send_def sent_messages_append Let_def
          split: option.splits prod.splits)
  qed
qed

lemma dashboard_step_states:
  "states d = [] \<Longrightarrow> states (fst (snd (dashboard_step c x d))) = []"
proof (cases x)
  case (Call_update_tasks now now' q exclude)
  assume "states d = []"
  then show ?thesis
    using update_tasks_states_empty[of d c now now' q exclude] Call_update_tasks
    by (cases "update_tasks c now now' q exclude d") auto
next
  case (Call_update_task_status data)
  assume "states d = []"
  then show ?thesis
    using update_task_status_states[of c data d] Call_update_task_status
    by (cases "update_task_status c data d") auto
qed

lemma dashboard_run_states:
  "states d = [] \<Longrightarrow> states (dashboard_run c calls d) = []"
  by (induction calls arbitrary: d) (auto simp: dashboard_step_states)

lemma terminate_store: "store (snd (terminate c p)) = store p"
  by (simp add: terminate_def emit_def Let_def split: prod.splits)

text \<open>
  Claim C3, as amended. \<open>terminate\<close> reads the running task ids from the store and hands
  exactly one pair \<open>(str(id), 'Killed')\<close> per running task id to \<open>update_task_status\<close>
  of the monitor, in one call; a \<open>Dashboard\<close> whose \<open>apMonSend\<close> does not raise sends one
  \<open>JobStatus\<close> message per id, a plain \<open>Monitor\<close> none. The store is left as it was (the
  only store call is the query \<open>running_tasks\<close>): no unit is marked cancelled and none
  is deleted.
\<close>

theorem terminate_reports_cancelled_and_keeps_store:
  assumes "\<forall>m. apMonSend c m = None"
  shows "store (snd (terminate c p)) = store p
   \<and> taskhandlers (snd (terminate c p)) = taskhandlers p
   \<and> fst (terminate c p) = None
   \<and> trace (snd (terminate c p)) =
       trace p @ [Store Running_tasks,
                  Telemetry (Update_task_status (map (\<lambda>tid. (str_int tid, CANCELLED)) (running_tasks c (store p))))]
         @ (case monitor p of
              Monitor \<Rightarrow> []
            | Dashboard d \<Rightarrow>
                map (\<lambda>tid. ApMonSend ((status_message c d (str_int tid, CANCELLED))\<lparr>MessageType := ''JobStatus''\<rparr>))
                  (running_tasks c (store p)))"
  using assms
  by (auto simp: terminate_def emit_def monitor_update_task_status_def update_task_status_def send_def
      apmon_send_all_ok comp_def split: monitor.splits prod.splits)

theorem terminate_reports_cancelled_witness:
  "store (snd (terminate demo two_running)) = store two_running
   \<and> map StatusValue (sent_messages (trace (snd (terminate demo two_running)))) = [CANCELLED, CANCELLED]
   \<and> telemetry_calls (trace (snd (terminate demo two_running)))
       = [Update_task_status [(str_int 10, CANCELLED), (str_int 11, CANCELLED)]]
   \<and> store_calls (trace (snd (terminate demo two_running))) = [Running_tasks]"
proof -
  have h: "\<forall>m. apMonSend demo m = None" by (simp add: demo_def)
  have r: "running_tasks demo (store two_running) = [10, 11]"
    by (simp add: demo_def two_running_def ledger_running_tasks_def ledger_init_def)
  have m: "monitor two_running = Dashboard (dashboard_init 300 ''wf'' ''site'')" "trace two_running = []"
    by (simp_all add: two_running_def)
  from terminate_reports_cancelled_and_keeps_store[OF h, of two_running] show ?thesis
    by (simp add: r m status_message_def)
qed

text \<open>
  Claim C3 as stated fails: with two units assigned to the running tasks 10 and 11,
  both units are still \<open>Assigned\<close> after \<open>terminate\<close>; neither is marked cancelled.
\<close>

theorem terminate_marks_no_unit_cancelled:
  "running_tasks demo (store two_running) = [10, 11]
   \<and> units (store (snd (terminate demo two_running))) = [(1, 10, Assigned), (2, 11, Assigned)]
   \<and> \<not> (\<forall>tid \<in> set (running_tasks demo (store two_running)).
           \<forall>u \<in> set (units (store (snd (terminate demo two_running)))).
             fst (snd u) = tid \<longrightarrow> snd (snd u) = Cancelled)"
proof -
  have r: "running_tasks demo (store two_running) = [10, 11]"
    by (simp add: demo_def two_running_def ledger_running_tasks_def ledger_init_def)
  have u: "units (store (snd (terminate demo two_running))) = [(1, 10, Assigned), (2, 11, Assigned)]"
    by (simp add: terminate_store two_running_def ledger_init_def)
  show ?thesis unfolding r u by simp
qed

text \<open>
  Claim C6. \<open>done\<close> returns True if and only if \<open>merged()\<close> is true and
  \<open>unfinished_units()\<close> is zero; it makes these two queries and leaves the store as it was.
\<close>

theorem done_iff_merged_and_nothing_unfinished:
  "fst (provider_done c p) = (merged c (store p) \<and> unfinished_units c (store p) = 0)
   \<and> store (snd (provider_done c p)) = store p
   \<and> trace (snd (provider_done c p)) = trace p @ [Store Unfinished_units, Store Merged]"
  by (simp add: provider_done_def emit_def)

theorem done_iff_merged_witness:
  "\<not> fst (provider_done demo two_running)
   \<and> fst (provider_done demo (two_running\<lparr>store := ledger_init\<lparr>units := [(1, 10, Merged_unit)]\<rparr>\<rparr>))
   \<and> \<not> fst (provider_done demo (two_running\<lparr>store := ledger_init\<lparr>units := [(1, 10, Successful)]\<rparr>\<rparr>))"
  using done_iff_merged_and_nothing_unfinished[of demo two_running]
    done_iff_merged_and_nothing_unfinished[of demo "two_running\<lparr>store := ledger_init\<lparr>units := [(1, 10, Merged_unit)]\<rparr>\<rparr>"]
    done_iff_merged_and_nothing_unfinished[of demo "two_running\<lparr>store := ledger_init\<lparr>units := [(1, 10, Successful)]\<rparr>\<rparr>"]
  by (simp add: demo_def two_running_def ledger_init_def ledger_merged_def ledger_unfinished_units_def)



text \<open>
  Claim C10. On a \<open>Dashboard\<close> object, after any run of calls since its construction,
  the state map is empty; so the loop of \<open>update_tasks\<close> forwards no \<open>(id, status)\<close> pair,
  whatever the queue holds, the call sends no message, and the state map is empty
  afterwards too.
\<close>

theorem update_tasks_forwards_nothing:
  "states (dashboard_run c calls (dashboard_init ival wfid site)) = []
   \<and> fst (snd (update_tasks_loop q exclude ids
        ([], states (dashboard_run c calls (dashboard_init ival wfid site)), evs))) = []
   \<and> sent_messages (snd (snd (update_tasks c now now' q exclude
        (dashboard_run c calls (dashboard_init ival wfid site))))) = []
   \<and> states (fst (snd (update_tasks c now now' q exclude
        (dashboard_run c calls (dashboard_init ival wfid site))))) = []"
proof -
  let ?d = "dashboard_run c calls (dashboard_init ival wfid site)"
  have s: "states ?d = []"
    by (rule dashboard_run_states) (simp add: dashboard_init_def)
  obtain r data sts evs' where
    l: "update_tasks_loop q exclude ids ([], [], evs) = (r, data, sts, evs')"
    by (metis prod_cases4)
  obtain r' d' es where u: "update_tasks c now now' q exclude ?d = (r', d', es)"
    by (metis prod_cases3)
  from update_tasks_loop_empty[OF l] l have "fst (snd (update_tasks_loop q exclude ids ([], [], evs))) = []"
    by simp
  moreover from update_tasks_states_empty[OF s u] u
  have "sent_messages (snd (snd (update_tasks c now now' q exclude ?d))) = []"
    and "states (fst (snd (update_tasks c now now' q exclude ?d))) = []"
    by simp_all
  ultimately show ?thesis using s by simp
qed

text \<open>
  A run on a queue that holds the two running tasks 10 and 11: the second reporting
  call reads the queue and the state of both tasks, and sends nothing.
\<close>

theorem update_tasks_forwards_nothing_witness:
  "sent_messages (snd (snd (update_tasks demo 1000 1001 running_queue [DONE, WAITING_RETRIEVAL]
        (dashboard_run demo [Call_update_tasks 400 401 running_queue [DONE, WAITING_RETRIEVAL]]
           (dashboard_init 300 ''wf'' ''site''))))) = []
   \<and> states (fst (snd (update_tasks demo 1000 1001 running_queue [DONE, WAITING_RETRIEVAL]
        (dashboard_run demo [Call_update_tasks 400 401 running_queue [DONE, WAITING_RETRIEVAL]]
           (dashboard_init 300 ''wf'' ''site''))))) = []
   \<and> queue_reads (snd (snd (update_tasks demo 1000 1001 running_queue [DONE, WAITING_RETRIEVAL]
        (dashboard_run demo [Call_update_tasks 400 401 running_queue [DONE, WAITING_RETRIEVAL]]
           (dashboard_init 300 ''wf'' ''site''))))) = [Queue_task_table, Queue_task_state 10, Queue_task_state 11]"
proof -
  have q: "queue_reads (snd (snd (update_tasks demo 1000 1001 running_queue [DONE, WAITING_RETRIEVAL]
        (dashboard_run demo [Call_update_tasks 400 401 running_queue [DONE, WAITING_RETRIEVAL]]
           (dashboard_init 300 ''wf'' ''site''))))) = [Queue_task_table, Queue_task_state 10, Queue_task_state 11]"
    by code_simp
  from update_tasks_forwards_nothing[of demo "[Call_update_tasks 400 401 running_queue [DONE, WAITING_RETRIEVAL]]"
      300 "''wf''" "''site''" running_queue "[DONE, WAITING_RETRIEVAL]" "[]" "[]" 1000 1001] q
  show ?thesis by blast
qed

section \<open>Properties of release\<close>

lemma moves_append: "moves (xs @ ys) = moves xs @ moves ys"
  by (induction xs rule: moves.induct) auto

lemma propagated_dd_modify:
  "propagated (dd_modify dep [] (AList.update fn info) pr) l f =
     (if l = dep \<and> f = fn then Some info else propagated pr l f)"
  by (auto simp: propagated_def get_default_def dd_modify_def map_of_map_default update_conv'
      split: option.splits)

lemma propagated_fold:
  "propagated (fold (\<lambda>dep pr. dd_modify dep [] (AList.update fn info) pr) deps pr) l f =
     (if l \<in> set deps \<and> f = fn then Some info else propagated pr l f)"
  by (induction deps arbitrary: pr) (auto simp: propagated_dd_modify)

lemma release_task_effect:
  assumes "map_of (taskhandlers p) (tag task) = Some h"
    and "handler_process c h task (summary a) (transfers_l a) = ((failed, tu, fu, uu), summ, tr)"
    and "workflow_named cfg (dataset h) = Some w"
  shows "\<exists>p' a'. release_task c cfg task (p, a) = (None, p', a')
    \<and> moves (trace p') = moves (trace p) @ [(workdir w, handler_id h, if failed then ''failed'' else ''successful'')]
    \<and> fail_cleanup a' = fail_cleanup a @ (if failed then map snd (outputs h) else [])
    \<and> (\<forall>l fn. propagated (propagate a') l fn =
          (if \<not> failed \<and> (merge_size w \<le> 0 \<or> is_merge h) \<and> outputs h \<noteq> []
              \<and> l \<in> set (dependents w) \<and> fn = snd (hd (outputs h))
           then Some (output_info h) else propagated (propagate a) l fn))"
  using assms
  by (auto simp: release_task_def handle_result_def emit_def Let_def moves_append propagated_fold)

lemma andthen_simps [simp]:
  "andthen (None, x) f = f x" "andthen (Some e, x) f = (Some e, x)"
  by (simp_all add: andthen_def)

lemma andthen_None:
  "andthen r f = (None, y) \<Longrightarrow> \<exists>x. r = (None, x) \<and> f x = (None, y)"
  by (cases r) (auto simp: andthen_def split: option.splits)

lemma release_task_frame:
  assumes "release_task c cfg t (p, a) = (r, p', a')"
  shows "store p' = store p \<and> monitor p' = monitor p
    \<and> store_calls (trace p') = store_calls (trace p)
    \<and> log_records (trace p') = log_records (trace p)
    \<and> taskhandlers p' = (if r = None then AList.delete (tag t) (taskhandlers p) else taskhandlers p)"
  using assms
  by (auto simp: release_task_def handle_result_def emit_def Let_def store_calls_append log_records_append
      split: option.splits prod.splits if_splits)

lemma release_loop_frame:
  "release_loop c cfg tasks (p, a) = (r, p', a') \<Longrightarrow>
     store p' = store p \<and> monitor p' = monitor p
     \<and> store_calls (trace p') = store_calls (trace p)
     \<and> log_records (trace p') = log_records (trace p)
     \<and> (\<forall>k. map_of (taskhandlers p) k = None \<longrightarrow> map_of (taskhandlers p') k = None)
     \<and> (r = None \<longrightarrow> (\<forall>t \<in> set tasks. map_of (taskhandlers p') (tag t) = None))"
proof (induction tasks arbitrary: p a)
  case Nil
  then show ?case by simp
next
  case (Cons t tasks)
  obtain r1 p1 a1 where s: "release_task c cfg t (p, a) = (r1, p1, a1)" by (metis prod_cases3)
  note f = release_task_frame[OF s]
  show ?case
  proof (cases r1)
    case (Some e)
    with Cons.prems s f show ?thesis by auto
  next
    case None
    with Cons.prems s have l: "release_loop c cfg tasks (p1, a1) = (r, p', a')" by simp
    note ih = Cons.IH[OF l]
    from f None have h: "map_of (taskhandlers p1) = (map_of (taskhandlers p))(tag t := None)"
      by (simp add: delete_conv')
    from ih f h show ?thesis by auto
  qed
qed

lemma release_loop_rejects:
  "release_loop c cfg tasks (p, a) = (r, p', a') \<Longrightarrow> t \<in> set tasks \<Longrightarrow>
     map_of (taskhandlers p) (tag t) = None \<Longrightarrow> r \<noteq> None"
proof (induction tasks arbitrary: p a)
  case Nil
  then show ?case by simp
next
  case (Cons x tasks)
  obtain r1 p1 a1 where s: "release_task c cfg x (p, a) = (r1, p1, a1)" by (metis prod_cases3)
  note f = release_task_frame[OF s]
  show ?case
  proof (cases r1)
    case (Some e)
    with Cons.prems s show ?thesis by auto
  next
    case None
    with Cons.prems s have l: "release_loop c cfg tasks (p1, a1) = (r, p', a')" by simp
    from f None have h: "map_of (taskhandlers p1) = (map_of (taskhandlers p))(tag x := None)"
      by (simp add: delete_conv')
    have ne: "tag x \<noteq> tag t"
      using s None Cons.prems(3) by (auto simp: release_task_def split: option.splits)
    then have "t \<in> set tasks" using Cons.prems(2) by auto
    moreover have "map_of (taskhandlers p1) (tag t) = None" using h Cons.prems(3) by simp
    ultimately show ?thesis using Cons.IH[OF l] by blast
  qed
qed

lemma apmon_events:
  "apmon_send_all f ms = (r, evs) \<Longrightarrow> store_calls evs = [] \<and> log_records evs = []"
  by (induction ms arbitrary: r evs) (auto split: option.splits prod.splits)

lemma store_calls_events_free: "store_calls evs = [] \<Longrightarrow> store_calls (xs @ Telemetry x # evs) = store_calls xs"
  by (simp add: store_calls_append)

lemma log_records_events_free: "log_records evs = [] \<Longrightarrow> log_records (xs @ Telemetry x # evs) = log_records xs"
  by (simp add: log_records_append)

lemma report_status_frame:
  "report_status c st tasks p = (r, p') \<Longrightarrow>
     store p' = store p \<and> taskhandlers p' = taskhandlers p \<and> store_calls (trace p') = store_calls (trace p)
     \<and> log_records (trace p') = log_records (trace p)"
  by (cases "monitor p")
     (auto simp: report_status_def emit_def Let_def monitor_update_task_status_def store_calls_events_free
        log_records_events_free update_task_status_def send_def
       split: prod.splits dest: apmon_events)

lemma commit_updates_frame:
  "commit_updates c a p = (r, p') \<Longrightarrow> r = None \<and> taskhandlers p' = taskhandlers p"
  by (auto simp: commit_updates_def emit_def split: if_splits)

lemma remove_files_frame:
  "remove_files c tasks cl p = (r, p') \<Longrightarrow> taskhandlers p' = taskhandlers p \<and> store p' = store p"
  by (auto simp: remove_files_def emit_def split: if_splits option.splits list.splits)

lemma cleanup_files_frame:
  "cleanup_files c tasks a p = (r, p') \<Longrightarrow> taskhandlers p' = taskhandlers p"
  by (auto simp: cleanup_files_def emit_def andthen_def
      split: if_splits option.splits prod.splits dest!: remove_files_frame)

lemma register_outputs_frame:
  "register_outputs c cfg pr p = (r, p') \<Longrightarrow> taskhandlers p' = taskhandlers p"
  by (induction pr arbitrary: p) (auto simp: emit_def split: option.splits)

lemma commit_transfers_frame:
  "commit_transfers c a p = (r, p') \<Longrightarrow> r = None \<and> taskhandlers p' = taskhandlers p"
  by (auto simp: commit_transfers_def emit_def split: if_splits)

lemma index_summary_frame:
  "index_summary c cfg p = (r, p') \<Longrightarrow> r = None \<and> taskhandlers p' = taskhandlers p"
  by (auto simp: index_summary_def emit_def split: if_splits option.splits)

lemma andthen_frame:
  assumes "andthen r f = (res, y)"
    and "\<And>x r' y'. f x = (r', y') \<Longrightarrow> g y' = g x"
  shows "g y = g (snd r)"
  using assms by (cases r) (auto simp: andthen_def split: option.splits)

lemma release_commit_frame:
  assumes "release_commit c cfg tasks a p = (r, p')"
  shows "taskhandlers p' = taskhandlers p"
proof -
  have 1: "taskhandlers (snd (report_status c RETRIEVED tasks p)) = taskhandlers p"
    using report_status_frame[of c RETRIEVED tasks p] by (cases "report_status c RETRIEVED tasks p") auto
  let ?s1 = "andthen (report_status c RETRIEVED tasks p) (commit_updates c a)"
  let ?s2 = "andthen ?s1 (cleanup_files c tasks a)"
  let ?s3 = "andthen ?s2 (register_outputs c cfg (propagate a))"
  let ?s4 = "andthen ?s3 (commit_transfers c a)"
  have 2: "taskhandlers (snd ?s1) = taskhandlers p"
    using andthen_frame[of "report_status c RETRIEVED tasks p" "commit_updates c a" "fst ?s1" "snd ?s1" taskhandlers]
      commit_updates_frame 1 by (metis prod.collapse)
  have 3: "taskhandlers (snd ?s2) = taskhandlers p"
    using andthen_frame[of ?s1 "cleanup_files c tasks a" "fst ?s2" "snd ?s2" taskhandlers]
      cleanup_files_frame 2 by (metis prod.collapse)
  have 4: "taskhandlers (snd ?s3) = taskhandlers p"
    using andthen_frame[of ?s2 "register_outputs c cfg (propagate a)" "fst ?s3" "snd ?s3" taskhandlers]
      register_outputs_frame 3 by (metis prod.collapse)
  have 5: "taskhandlers (snd ?s4) = taskhandlers p"
    using andthen_frame[of ?s3 "commit_transfers c a" "fst ?s4" "snd ?s4" taskhandlers]
      commit_transfers_frame 4 by (metis prod.collapse)
  have "taskhandlers (snd (andthen ?s4 (index_summary c cfg))) = taskhandlers p"
    using andthen_frame[of ?s4 "index_summary c cfg" "fst (andthen ?s4 (index_summary c cfg))"
        "snd (andthen ?s4 (index_summary c cfg))" taskhandlers]
      index_summary_frame 5 by (metis prod.collapse)
  then show ?thesis using assms by (simp add: release_commit_def)
qed

lemma release_removes_handlers:
  assumes "release c cfg tasks p = (None, p1)" and "t \<in> set tasks"
  shows "map_of (taskhandlers p1) (tag t) = None"
proof -
  obtain r0 p0 where r0: "report_status c DONE tasks p = (r0, p0)" by (metis prod.collapse)
  obtain r p' a where l: "release_loop c cfg tasks (p0, release_locals_init) = (r, p', a)"
    by (metis prod_cases3)
  from assms(1) r0 l have n: "r0 = None" "r = None" and cm: "release_commit c cfg tasks a p' = (None, p1)"
    by (auto simp: release_def split: option.splits)
  from release_loop_frame[OF l] n assms(2) have "map_of (taskhandlers p') (tag t) = None" by blast
  with release_commit_frame[OF cm] show ?thesis by simp
qed

text \<open>
  Claim C8. After a \<open>release\<close> that returned, none of its tasks has a handler any more;
  a second \<open>release\<close> over a list that holds one of these tags again raises, and leaves
  the store as it was: it makes no store call.
\<close>

theorem release_twice_is_rejected:
  assumes "release c cfg tasks1 p = (None, p1)"
    and "t1 \<in> set tasks1" and "t2 \<in> set tasks2" and "tag t2 = tag t1"
  shows "map_of (taskhandlers p1) (tag t1) = None
    \<and> fst (release c cfg tasks2 p1) \<noteq> None
    \<and> store (snd (release c cfg tasks2 p1)) = store p1
    \<and> store_calls (trace (snd (release c cfg tasks2 p1))) = store_calls (trace p1)"
proof -
  have h: "map_of (taskhandlers p1) (tag t1) = None"
    using release_removes_handlers[OF assms(1,2)] .
  obtain r0 p0 where r0: "report_status c DONE tasks2 p1 = (r0, p0)" by (metis prod.collapse)
  note f0 = report_status_frame[OF r0]
  obtain r p' a where l: "release_loop c cfg tasks2 (p0, release_locals_init) = (r, p', a)"
    by (metis prod_cases3)
  note fl = release_loop_frame[OF l]
  have "map_of (taskhandlers p0) (tag t2) = None" using h f0 assms(4) by simp
  from release_loop_rejects[OF l assms(3) this] have rn: "r \<noteq> None" .
  show ?thesis
  proof (cases r0)
    case (Some e)
    with r0 f0 h show ?thesis by (simp add: release_def)
  next
    case None
    with r0 l rn f0 fl h show ?thesis by (auto simp: release_def split: option.splits)
  qed
qed

lemma handle_result_fs: "handle_result (c\<lparr>fs_remove := f\<rparr>) h w failed fu = handle_result c h w failed fu"
  by (auto simp: handle_result_def Let_def fun_eq_iff)

lemma release_task_fs: "release_task (c\<lparr>fs_remove := f\<rparr>) cfg t = release_task c cfg t"
  by (auto simp: release_task_def handle_result_fs Let_def fun_eq_iff split: option.splits prod.splits)

lemma release_loop_fs: "release_loop (c\<lparr>fs_remove := f\<rparr>) cfg tasks st = release_loop c cfg tasks st"
  by (induction tasks arbitrary: st) (auto simp: release_task_fs andthen_def split: prod.splits option.splits)

lemma register_outputs_fs: "register_outputs (c\<lparr>fs_remove := f\<rparr>) cfg pr p = register_outputs c cfg pr p"
  by (induction pr arbitrary: p) (auto split: option.splits)

lemma update_task_status_fs:
  "update_task_status (c\<lparr>fs_remove := f\<rparr>) data d = update_task_status c data d"
  by (simp add: update_task_status_def send_def status_message_def generate_ids_def)

lemma monitor_update_task_status_fs:
  "monitor_update_task_status (c\<lparr>fs_remove := f\<rparr>) data m = monitor_update_task_status c data m"
  by (cases m) (simp_all add: monitor_update_task_status_def update_task_status_fs)

lemma report_status_fs: "report_status (c\<lparr>fs_remove := f\<rparr>) st tasks p = report_status c st tasks p"
  by (simp add: report_status_def monitor_update_task_status_fs)

lemma commit_steps_fs:
  "commit_updates (c\<lparr>fs_remove := f\<rparr>) a = commit_updates c a"
  "commit_transfers (c\<lparr>fs_remove := f\<rparr>) a = commit_transfers c a"
  "index_summary (c\<lparr>fs_remove := f\<rparr>) cfg = index_summary c cfg"
  by (simp_all add: fun_eq_iff commit_updates_def commit_transfers_def index_summary_def)

lemma remove_files_swallowed:
  assumes "fs_remove c cl = None \<or> fs_remove c cl = Some IOError \<or> fs_remove c cl = Some OSError"
  shows "remove_files c tasks cl p = (None, if cl = [] then p else emit [Fs_remove cl] p)"
  using assms by (auto simp: remove_files_def)

lemma cleanup_files_swallowed:
  assumes "\<forall>fs. fs_remove c fs = None \<or> fs_remove c fs = Some IOError \<or> fs_remove c fs = Some OSError"
  shows "cleanup_files c tasks a p = cleanup_files (c\<lparr>fs_remove := (\<lambda>fs. None)\<rparr>) tasks a p
    \<and> fst (cleanup_files c tasks a p) = None
    \<and> log_records (trace (snd (cleanup_files c tasks a p))) = log_records (trace p)
    \<and> store_calls (trace (snd (cleanup_files c tasks a p))) =
        store_calls (trace p) @ (if input_files_l a = [] then [] else [Finished_files (input_files_l a)])"
proof -
  have r: "\<And>cl q. remove_files c tasks cl q = (None, if cl = [] then q else emit [Fs_remove cl] q)"
    using assms remove_files_swallowed by blast
  have r': "\<And>cl q. remove_files (c\<lparr>fs_remove := (\<lambda>fs. None)\<rparr>) tasks cl q
      = (None, if cl = [] then q else emit [Fs_remove cl] q)"
    by (rule remove_files_swallowed) simp
  show ?thesis
    by (auto simp: cleanup_files_def r r' emit_def log_records_append store_calls_append split: prod.splits)
qed

lemma register_outputs_calls:
  assumes "\<forall>l \<in> fst ` set pr. workflow_named cfg l \<noteq> None"
  shows "fst (register_outputs c cfg pr p) = None
    \<and> store_calls (trace (snd (register_outputs c cfg pr p))) =
        store_calls (trace p)
        @ map (\<lambda>(l, infos). Register_files infos l (unique_arguments (the (workflow_named cfg l)))) pr"
  using assms
  by (induction pr arbitrary: p) (auto simp: emit_def store_calls_append)

lemma commit_updates_calls:
  "fst (commit_updates c a p) = None
   \<and> store_calls (trace (snd (commit_updates c a p))) =
       store_calls (trace p) @ (if update_l a = [] then [] else [Update_units (update_l a)])"
  by (simp add: commit_updates_def emit_def store_calls_append)

lemma commit_transfers_calls:
  "fst (commit_transfers c a p) = None
   \<and> store_calls (trace (snd (commit_transfers c a p))) =
       store_calls (trace p) @ (if transfers_l a = [] then [] else [Update_transfers (transfers_l a)])"
  by (simp add: commit_transfers_def emit_def store_calls_append)

lemma index_summary_calls:
  "fst (index_summary c cfg p) = None
   \<and> store_calls (trace (snd (index_summary c cfg p))) =
       store_calls (trace p) @ (if elk cfg then [Workflow_status] else [])"
  by (simp add: index_summary_def emit_def store_calls_append split: option.splits)

text \<open>
  Claim C7, as amended. When \<open>fs.remove\<close> raises nothing but \<open>IOError\<close> or \<open>OSError\<close>,
  \<open>release\<close> returns the same result, with the same trace (log records included) and the
  same store, as it does when every removal succeeds: the exception is passed over
  without a log record. The cleanup block returns normally and logs nothing, and the steps
  after it run: when the second status report does not raise and every label of
  \<open>propagate\<close> is a workflow, the rest of \<open>release\<close> returns normally and calls the store
  with \<open>update_units\<close>, \<open>finished_files\<close>, one \<open>register_files\<close> per entry of \<open>propagate\<close>,
  \<open>update_transfers\<close> and \<open>workflow_status\<close>, each under its own condition.
\<close>

theorem release_swallows_io_errors_silently:
  assumes "\<forall>fs. fs_remove c fs = None \<or> fs_remove c fs = Some IOError \<or> fs_remove c fs = Some OSError"
  shows "release c cfg tasks p = release (c\<lparr>fs_remove := (\<lambda>fs. None)\<rparr>) cfg tasks p
    \<and> fst (cleanup_files c tasks a q) = None
    \<and> log_records (trace (snd (cleanup_files c tasks a q))) = log_records (trace q)
    \<and> (fst (report_status c RETRIEVED tasks q) = None
         \<and> (\<forall>l \<in> fst ` set (propagate a). workflow_named cfg l \<noteq> None) \<longrightarrow>
        fst (release_commit c cfg tasks a q) = None
        \<and> store_calls (trace (snd (release_commit c cfg tasks a q))) =
            store_calls (trace q)
            @ (if update_l a = [] then [] else [Update_units (update_l a)])
            @ (if input_files_l a = [] then [] else [Finished_files (input_files_l a)])
            @ map (\<lambda>(l, infos). Register_files infos l (unique_arguments (the (workflow_named cfg l)))) (propagate a)
            @ (if transfers_l a = [] then [] else [Update_transfers (transfers_l a)])
            @ (if elk cfg then [Workflow_status] else []))"
proof -
  note cl = cleanup_files_swallowed[OF assms]
  have eqc: "\<And>a q. release_commit c cfg tasks a q = release_commit (c\<lparr>fs_remove := (\<lambda>fs. None)\<rparr>) cfg tasks a q"
  proof -
    fix a q
    have ce: "cleanup_files c tasks a = cleanup_files (c\<lparr>fs_remove := (\<lambda>fs. None)\<rparr>) tasks a"
      by (rule ext) (simp add: cl)
    have re: "register_outputs (c\<lparr>fs_remove := (\<lambda>fs. None)\<rparr>) cfg (propagate a) = register_outputs c cfg (propagate a)"
      by (rule ext) (simp add: register_outputs_fs)
    show "release_commit c cfg tasks a q = release_commit (c\<lparr>fs_remove := (\<lambda>fs. None)\<rparr>) cfg tasks a q"
      unfolding release_commit_def report_status_fs commit_steps_fs re ce[symmetric] ..
  qed
  have 1: "release c cfg tasks p = release (c\<lparr>fs_remove := (\<lambda>fs. None)\<rparr>) cfg tasks p"
    by (simp add: release_def report_status_fs release_loop_fs eqc split: prod.splits option.splits)
  have 2: "fst (report_status c RETRIEVED tasks q) = None
         \<and> (\<forall>l \<in> fst ` set (propagate a). workflow_named cfg l \<noteq> None) \<longrightarrow>
        fst (release_commit c cfg tasks a q) = None
        \<and> store_calls (trace (snd (release_commit c cfg tasks a q))) =
            store_calls (trace q)
            @ (if update_l a = [] then [] else [Update_units (update_l a)])
            @ (if input_files_l a = [] then [] else [Finished_files (input_files_l a)])
            @ map (\<lambda>(l, infos). Register_files infos l (unique_arguments (the (workflow_named cfg l)))) (propagate a)
            @ (if transfers_l a = [] then [] else [Update_transfers (transfers_l a)])
            @ (if elk cfg then [Workflow_status] else [])"
  proof
    assume h: "fst (report_status c RETRIEVED tasks q) = None
         \<and> (\<forall>l \<in> fst ` set (propagate a). workflow_named cfg l \<noteq> None)"
    obtain q0 where q0: "report_status c RETRIEVED tasks q = (None, q0)"
      using h by (metis prod.collapse)
    note f0 = report_status_frame[OF q0]
    define q1 where "q1 = snd (commit_updates c a q0)"
    have q1: "commit_updates c a q0 = (None, q1)"
      and s1: "store_calls (trace q1) = store_calls (trace q0) @ (if update_l a = [] then [] else [Update_units (update_l a)])"
      using commit_updates_calls[of c a q0] by (simp_all add: q1_def prod_eq_iff)
    define q2 where "q2 = snd (cleanup_files c tasks a q1)"
    have q2: "cleanup_files c tasks a q1 = (None, q2)"
      and s2: "store_calls (trace q2) = store_calls (trace q1) @ (if input_files_l a = [] then [] else [Finished_files (input_files_l a)])"
      using cleanup_files_swallowed[OF assms, of tasks a q1] by (auto simp: q2_def prod_eq_iff)
    define q3 where "q3 = snd (register_outputs c cfg (propagate a) q2)"
    have q3: "register_outputs c cfg (propagate a) q2 = (None, q3)"
      and s3: "store_calls (trace q3) = store_calls (trace q2)
        @ map (\<lambda>(l, infos). Register_files infos l (unique_arguments (the (workflow_named cfg l)))) (propagate a)"
      using register_outputs_calls[of "propagate a" cfg c q2] h by (simp_all add: q3_def prod_eq_iff)
    define q4 where "q4 = snd (commit_transfers c a q3)"
    have q4: "commit_transfers c a q3 = (None, q4)"
      and s4: "store_calls (trace q4) = store_calls (trace q3) @ (if transfers_l a = [] then [] else [Update_transfers (transfers_l a)])"
      using commit_transfers_calls[of c a q3] by (simp_all add: q4_def prod_eq_iff)
    define q5 where "q5 = snd (index_summary c cfg q4)"
    have q5: "index_summary c cfg q4 = (None, q5)"
      and s5: "store_calls (trace q5) = store_calls (trace q4) @ (if elk cfg then [Workflow_status] else [])"
      using index_summary_calls[of c cfg q4] by (simp_all add: q5_def prod_eq_iff)
    have "release_commit c cfg tasks a q = (None, q5)"
      by (simp add: release_commit_def q0 q1 q2 q3 q4 q5)
    then show "fst (release_commit c cfg tasks a q) = None
        \<and> store_calls (trace (snd (release_commit c cfg tasks a q))) =
            store_calls (trace q)
            @ (if update_l a = [] then [] else [Update_units (update_l a)])
            @ (if input_files_l a = [] then [] else [Finished_files (input_files_l a)])
            @ map (\<lambda>(l, infos). Register_files infos l (unique_arguments (the (workflow_named cfg l)))) (propagate a)
            @ (if transfers_l a = [] then [] else [Update_transfers (transfers_l a)])
            @ (if elk cfg then [Workflow_status] else [])"
      using f0 s1 s2 s3 s4 s5 by simp
  qed
  from 1 cl[of tasks a q] 2 show ?thesis by blast
qed

lemma release_loop_split:
  "release_loop c cfg (xs @ t # ys) st = (None, st') \<Longrightarrow>
     \<exists>s1 s2. release_loop c cfg xs st = (None, s1) \<and> release_task c cfg t s1 = (None, s2)
        \<and> release_loop c cfg ys s2 = (None, st')"
proof (induction xs arbitrary: st)
  case Nil
  then show ?case by (auto dest: andthen_None)
next
  case (Cons x xs)
  from Cons.prems obtain s where s: "release_task c cfg x st = (None, s)"
    and l: "release_loop c cfg (xs @ t # ys) s = (None, st')"
    by (auto dest: andthen_None)
  from Cons.IH[OF l] s show ?case by auto
qed

lemma release_task_grows:
  "release_task c cfg t (p, a) = (r, p', a') \<Longrightarrow>
     (\<exists>ms. moves (trace p') = moves (trace p) @ ms) \<and> (\<exists>fc. fail_cleanup a' = fail_cleanup a @ fc)
     \<and> (\<forall>k h. map_of (taskhandlers p') k = Some h \<longrightarrow> map_of (taskhandlers p) k = Some h)"
  by (auto simp: release_task_def handle_result_def emit_def Let_def moves_append delete_conv'
      split: option.splits prod.splits if_splits)

lemma release_loop_grows:
  "release_loop c cfg tasks (p, a) = (r, p', a') \<Longrightarrow>
     (\<exists>ms. moves (trace p') = moves (trace p) @ ms) \<and> (\<exists>fc. fail_cleanup a' = fail_cleanup a @ fc)
     \<and> (\<forall>k h. map_of (taskhandlers p') k = Some h \<longrightarrow> map_of (taskhandlers p) k = Some h)"
proof (induction tasks arbitrary: p a)
  case Nil
  then show ?case by simp
next
  case (Cons t tasks)
  obtain r1 p1 a1 where s: "release_task c cfg t (p, a) = (r1, p1, a1)" by (metis prod_cases3)
  note g = release_task_grows[OF s]
  show ?case
  proof (cases r1)
    case (Some e)
    with Cons.prems s g show ?thesis by auto
  next
    case None
    with Cons.prems s have l: "release_loop c cfg tasks (p1, a1) = (r, p', a')" by simp
    from Cons.IH[OF l] g show ?thesis by (metis append.assoc)
  qed
qed

lemma release_task_succeeds:
  "release_task c cfg t (p, a) = (None, p', a') \<Longrightarrow>
     \<exists>h failed tu fu uu summ tr w. map_of (taskhandlers p) (tag t) = Some h
       \<and> handler_process c h t (summary a) (transfers_l a) = ((failed, tu, fu, uu), summ, tr)
       \<and> workflow_named cfg (dataset h) = Some w"
  by (auto simp: release_task_def Let_def split: option.splits prod.splits)

lemma apmon_moves: "apmon_send_all f ms = (r, evs) \<Longrightarrow> moves evs = []"
  by (induction ms arbitrary: r evs) (auto split: option.splits prod.splits)

lemma report_status_grows:
  "report_status c st tasks p = (r, p') \<Longrightarrow> \<exists>evs. trace p' = trace p @ evs \<and> moves evs = []"
  by (cases "monitor p")
     (auto simp: report_status_def emit_def Let_def monitor_update_task_status_def
        update_task_status_def send_def split: prod.splits dest: apmon_moves)

lemma commit_updates_grows:
  "commit_updates c a p = (r, p') \<Longrightarrow> \<exists>evs. trace p' = trace p @ evs \<and> moves evs = []"
  by (auto simp: commit_updates_def emit_def split: if_splits)

lemma remove_files_grows:
  "remove_files c tasks cl p = (r, p') \<Longrightarrow>
     \<exists>evs. trace p' = trace p @ evs \<and> moves evs = [] \<and> store_calls evs = []
       \<and> (cl \<noteq> [] \<longrightarrow> Fs_remove cl \<in> set evs)"
  by (auto simp: remove_files_def emit_def split: if_splits option.splits list.splits)

lemma cleanup_files_grows:
  assumes "cleanup_files c tasks a p = (r, p')"
  shows "\<exists>evs. trace p' = trace p @ evs \<and> moves evs = []
       \<and> store_calls evs = (if input_files_l a = [] then [] else [Finished_files (input_files_l a)])
       \<and> (fail_cleanup a \<noteq> [] \<longrightarrow> Fs_remove (fail_cleanup a) \<in> set evs)"
proof -
  define ic where "ic = (if length (input_files_l a) > 0
      then input_cleanup a @ fst (finished_files c (store p) (input_files_l a)) else input_cleanup a)"
  define p1 where "p1 = (if length (input_files_l a) > 0
      then emit [Store (Finished_files (input_files_l a))]
             (p\<lparr>store := snd (finished_files c (store p) (input_files_l a))\<rparr>) else p)"
  have t1: "trace p1 = trace p @ (if input_files_l a = [] then [] else [Store (Finished_files (input_files_l a))])"
    by (simp add: p1_def emit_def)
  have cf: "cleanup_files c tasks a p =
      andthen (remove_files c tasks (fail_cleanup a) p1) (remove_files c tasks (merge_cleanup a @ ic))"
    by (simp add: cleanup_files_def ic_def p1_def split_def)
  obtain r1 q1 where s1: "remove_files c tasks (fail_cleanup a) p1 = (r1, q1)" by (metis prod.collapse)
  from remove_files_grows[OF s1] obtain e1 where e1: "trace q1 = trace p1 @ e1" "moves e1 = []"
    "store_calls e1 = []" "fail_cleanup a \<noteq> [] \<longrightarrow> Fs_remove (fail_cleanup a) \<in> set e1" by blast
  show ?thesis
  proof (cases r1)
    case (Some e)
    with cf s1 assms have "p' = q1" by simp
    with e1 t1 show ?thesis by (auto simp: moves_append store_calls_append)
  next
    case None
    with cf s1 assms have s2: "remove_files c tasks (merge_cleanup a @ ic) q1 = (r, p')" by simp
    from remove_files_grows[OF s2] obtain e2 where e2: "trace p' = trace q1 @ e2" "moves e2 = []"
      "store_calls e2 = []" by blast
    with e1 t1 show ?thesis by (auto simp: moves_append store_calls_append)
  qed
qed

lemma register_outputs_grows:
  "register_outputs c cfg pr p = (r, p') \<Longrightarrow>
     \<exists>evs. trace p' = trace p @ evs \<and> moves evs = []
       \<and> (r = None \<longrightarrow> store_calls evs =
             map (\<lambda>(l, infos). Register_files infos l (unique_arguments (the (workflow_named cfg l)))) pr)"
proof (induction pr arbitrary: p)
  case Nil
  then show ?case by simp
next
  case (Cons x pr)
  obtain l infos where x: "x = (l, infos)" by (metis prod.collapse)
  show ?case
  proof (cases "workflow_named cfg l")
    case None
    with Cons.prems x show ?thesis by auto
  next
    case (Some w)
    let ?q = "emit [Store (Register_files infos l (unique_arguments w))]
               (p\<lparr>store := register_files c (store p) infos l (unique_arguments w)\<rparr>)"
    from Cons.prems x Some have "register_outputs c cfg pr ?q = (r, p')" by simp
    from Cons.IH[OF this] obtain evs where "trace p' = trace ?q @ evs" "moves evs = []"
      "r = None \<longrightarrow> store_calls evs =
             map (\<lambda>(l, infos). Register_files infos l (unique_arguments (the (workflow_named cfg l)))) pr"
      by blast
    then show ?thesis using x Some
      by (intro exI[of _ "Store (Register_files infos l (unique_arguments w)) # evs"])
         (auto simp: emit_def)
  qed
qed

lemma commit_transfers_grows:
  "commit_transfers c a p = (r, p') \<Longrightarrow> \<exists>evs. trace p' = trace p @ evs \<and> moves evs = []"
  by (auto simp: commit_transfers_def emit_def split: if_splits)

lemma index_summary_grows:
  "index_summary c cfg p = (r, p') \<Longrightarrow> \<exists>evs. trace p' = trace p @ evs \<and> moves evs = []"
  by (auto simp: index_summary_def emit_def split: if_splits option.splits)

lemma release_commit_returns:
  assumes "release_commit c cfg tasks a p = (None, p')"
  shows "moves (trace p') = moves (trace p)
    \<and> store_calls (trace p') =
        store_calls (trace p)
        @ (if update_l a = [] then [] else [Update_units (update_l a)])
        @ (if input_files_l a = [] then [] else [Finished_files (input_files_l a)])
        @ map (\<lambda>(l, infos). Register_files infos l (unique_arguments (the (workflow_named cfg l)))) (propagate a)
        @ (if transfers_l a = [] then [] else [Update_transfers (transfers_l a)])
        @ (if elk cfg then [Workflow_status] else [])
    \<and> (fail_cleanup a \<noteq> [] \<longrightarrow> Fs_remove (fail_cleanup a) \<in> set (trace p'))"
proof -
  from assms obtain q4 where
    x4: "andthen (andthen (andthen (andthen (report_status c RETRIEVED tasks p) (commit_updates c a))
           (cleanup_files c tasks a)) (register_outputs c cfg (propagate a))) (commit_transfers c a) = (None, q4)"
    and s5: "index_summary c cfg q4 = (None, p')"
    unfolding release_commit_def by (blast dest: andthen_None)
  from x4 obtain q3 where
    x3: "andthen (andthen (andthen (report_status c RETRIEVED tasks p) (commit_updates c a))
           (cleanup_files c tasks a)) (register_outputs c cfg (propagate a)) = (None, q3)"
    and s4: "commit_transfers c a q3 = (None, q4)"
    by (blast dest: andthen_None)
  from x3 obtain q2 where
    x2: "andthen (andthen (report_status c RETRIEVED tasks p) (commit_updates c a))
           (cleanup_files c tasks a) = (None, q2)"
    and s3: "register_outputs c cfg (propagate a) q2 = (None, q3)"
    by (blast dest: andthen_None)
  from x2 obtain q1 where
    x1: "andthen (report_status c RETRIEVED tasks p) (commit_updates c a) = (None, q1)"
    and s2: "cleanup_files c tasks a q1 = (None, q2)"
    by (blast dest: andthen_None)
  from x1 obtain q0 where
    s0: "report_status c RETRIEVED tasks p = (None, q0)"
    and s1: "commit_updates c a q0 = (None, q1)"
    by (blast dest: andthen_None)
  from report_status_grows[OF s0] report_status_frame[OF s0]
  have m0: "moves (trace q0) = moves (trace p)" and c0: "store_calls (trace q0) = store_calls (trace p)"
    by (auto simp: moves_append)
  from commit_updates_grows[OF s1] commit_updates_calls[of c a q0] s1
  have m1: "moves (trace q1) = moves (trace q0)"
    and c1: "store_calls (trace q1) = store_calls (trace q0) @ (if update_l a = [] then [] else [Update_units (update_l a)])"
    by (auto simp: moves_append)
  from cleanup_files_grows[OF s2] obtain e2 where e2: "trace q2 = trace q1 @ e2" "moves e2 = []"
    "store_calls e2 = (if input_files_l a = [] then [] else [Finished_files (input_files_l a)])"
    "fail_cleanup a \<noteq> [] \<longrightarrow> Fs_remove (fail_cleanup a) \<in> set e2" by blast
  from register_outputs_grows[OF s3] obtain e3 where e3: "trace q3 = trace q2 @ e3" "moves e3 = []"
    "store_calls e3 = map (\<lambda>(l, infos). Register_files infos l (unique_arguments (the (workflow_named cfg l)))) (propagate a)"
    by blast
  from commit_transfers_grows[OF s4] commit_transfers_calls[of c a q3] s4
  obtain e4 where e4: "trace q4 = trace q3 @ e4" "moves e4 = []"
    and c4: "store_calls (trace q4) = store_calls (trace q3) @ (if transfers_l a = [] then [] else [Update_transfers (transfers_l a)])"
    by auto
  from index_summary_grows[OF s5] index_summary_calls[of c cfg q4] s5
  obtain e5 where e5: "trace p' = trace q4 @ e5" "moves e5 = []"
    and c5: "store_calls (trace p') = store_calls (trace q4) @ (if elk cfg then [Workflow_status] else [])"
    by auto
  have a: "moves (trace p') = moves (trace p)"
    using m0 m1 e2 e3 e4 e5 by (simp add: moves_append)
  have b: "store_calls (trace p') =
        store_calls (trace p)
        @ (if update_l a = [] then [] else [Update_units (update_l a)])
        @ (if input_files_l a = [] then [] else [Finished_files (input_files_l a)])
        @ map (\<lambda>(l, infos). Register_files infos l (unique_arguments (the (workflow_named cfg l)))) (propagate a)
        @ (if transfers_l a = [] then [] else [Update_transfers (transfers_l a)])
        @ (if elk cfg then [Workflow_status] else [])"
    using c0 c1 e2 e3 c4 c5 by (simp add: store_calls_append)
  have d: "fail_cleanup a \<noteq> [] \<longrightarrow> Fs_remove (fail_cleanup a) \<in> set (trace p')"
    using e2 e3 e4 e5 by auto
  from a b d show ?thesis by blast
qed

lemma release_loop_moves:
  "release_loop c cfg tasks (p, a) = (None, p', a') \<Longrightarrow>
     \<exists>ms. moves (trace p') = moves (trace p) @ ms \<and> length ms = length tasks"
proof (induction tasks arbitrary: p a)
  case Nil
  then show ?case by simp
next
  case (Cons t tasks)
  from Cons.prems obtain p1 a1 where s: "release_task c cfg t (p, a) = (None, p1, a1)"
    and l: "release_loop c cfg tasks (p1, a1) = (None, p', a')"
    by (auto dest: andthen_None)
  from release_task_succeeds[OF s] obtain h failed tu fu uu summ tr w where
    "map_of (taskhandlers p) (tag t) = Some h"
    "handler_process c h t (summary a) (transfers_l a) = ((failed, tu, fu, uu), summ, tr)"
    "workflow_named cfg (dataset h) = Some w" by blast
  from release_task_effect[OF this] s obtain mv where mv: "moves (trace p1) = moves (trace p) @ [mv]"
    by auto
  from Cons.IH[OF l] obtain ms where "moves (trace p') = moves (trace p1) @ ms" "length ms = length tasks"
    by blast
  with mv show ?case by (intro exI[of _ "mv # ms"]) simp
qed

lemma propagated_entry:
  "propagated pr l fn = Some v \<Longrightarrow> \<exists>infos. (l, infos) \<in> set pr \<and> map_of infos fn = Some v"
  by (auto simp: propagated_def get_default_def split: option.splits dest: map_of_SomeD)

lemma propagate_fold_distinct:
  "distinct (map fst pr) \<Longrightarrow>
     distinct (map fst (fold (\<lambda>dep pr. dd_modify dep [] (AList.update fn info) pr) deps pr))"
  by (induction deps arbitrary: pr) (auto simp: dd_modify_def distinct_map_default)

lemma release_task_propagate:
  assumes "release_task c cfg t (p, a) = (r, p', a')"
  shows "(distinct (map fst (propagate a)) \<longrightarrow> distinct (map fst (propagate a')))
    \<and> (\<forall>l fn. propagated (propagate a') l fn = propagated (propagate a) l fn
          \<or> (\<exists>h w s0 tr0 tu fu uu s1 tr1.
                map_of (taskhandlers p) (tag t) = Some h
              \<and> workflow_named cfg (dataset h) = Some w
              \<and> handler_process c h t s0 tr0 = ((False, tu, fu, uu), s1, tr1)
              \<and> (merge_size w \<le> 0 \<or> is_merge h) \<and> outputs h \<noteq> []
              \<and> l \<in> set (dependents w) \<and> fn = snd (hd (outputs h))
              \<and> propagated (propagate a') l fn = Some (output_info h)))"
proof (cases r)
  case (Some e)
  with assms have "propagate a' = propagate a"
    by (auto simp: release_task_def Let_def split: option.splits prod.splits)
  then show ?thesis by simp
next
  case None
  with assms have s: "release_task c cfg t (p, a) = (None, p', a')" by simp
  from release_task_succeeds[OF s] obtain h failed tu fu uu summ tr w where
    h: "map_of (taskhandlers p) (tag t) = Some h"
    and pr: "handler_process c h t (summary a) (transfers_l a) = ((failed, tu, fu, uu), summ, tr)"
    and w: "workflow_named cfg (dataset h) = Some w" by blast
  from release_task_effect[OF h pr w] s have
    e: "\<forall>l fn. propagated (propagate a') l fn =
          (if \<not> failed \<and> (merge_size w \<le> 0 \<or> is_merge h) \<and> outputs h \<noteq> []
              \<and> l \<in> set (dependents w) \<and> fn = snd (hd (outputs h))
           then Some (output_info h) else propagated (propagate a) l fn)"
    by auto
  have "distinct (map fst (propagate a)) \<longrightarrow>
      distinct (map fst (propagate (snd (snd (release_task c cfg t (p, a))))))"
    using h pr w
    by (auto simp: release_task_def handle_result_def emit_def Let_def propagate_fold_distinct)
  then have d: "distinct (map fst (propagate a)) \<longrightarrow> distinct (map fst (propagate a'))"
    using s by simp
  have "\<forall>l fn. propagated (propagate a') l fn = propagated (propagate a) l fn
          \<or> (\<exists>h w s0 tr0 tu fu uu s1 tr1.
                map_of (taskhandlers p) (tag t) = Some h
              \<and> workflow_named cfg (dataset h) = Some w
              \<and> handler_process c h t s0 tr0 = ((False, tu, fu, uu), s1, tr1)
              \<and> (merge_size w \<le> 0 \<or> is_merge h) \<and> outputs h \<noteq> []
              \<and> l \<in> set (dependents w) \<and> fn = snd (hd (outputs h))
              \<and> propagated (propagate a') l fn = Some (output_info h))"
  proof (intro allI)
    fix l fn
    show "propagated (propagate a') l fn = propagated (propagate a) l fn
          \<or> (\<exists>h w s0 tr0 tu fu uu s1 tr1.
                map_of (taskhandlers p) (tag t) = Some h
              \<and> workflow_named cfg (dataset h) = Some w
              \<and> handler_process c h t s0 tr0 = ((False, tu, fu, uu), s1, tr1)
              \<and> (merge_size w \<le> 0 \<or> is_merge h) \<and> outputs h \<noteq> []
              \<and> l \<in> set (dependents w) \<and> fn = snd (hd (outputs h))
              \<and> propagated (propagate a') l fn = Some (output_info h))"
    proof (cases "\<not> failed \<and> (merge_size w \<le> 0 \<or> is_merge h) \<and> outputs h \<noteq> []
              \<and> l \<in> set (dependents w) \<and> fn = snd (hd (outputs h))")
      case True
      with e have v: "propagated (propagate a') l fn = Some (output_info h)" by simp
      from True pr have pr': "handler_process c h t (summary a) (transfers_l a) = ((False, tu, fu, uu), summ, tr)"
        by simp
      have "\<exists>h w s0 tr0 tu fu uu s1 tr1.
                map_of (taskhandlers p) (tag t) = Some h
              \<and> workflow_named cfg (dataset h) = Some w
              \<and> handler_process c h t s0 tr0 = ((False, tu, fu, uu), s1, tr1)
              \<and> (merge_size w \<le> 0 \<or> is_merge h) \<and> outputs h \<noteq> []
              \<and> l \<in> set (dependents w) \<and> fn = snd (hd (outputs h))
              \<and> propagated (propagate a') l fn = Some (output_info h)"
        apply (intro exI conjI)
              apply (rule h)
             apply (rule w)
            apply (rule pr')
        using True v by simp_all
      then show ?thesis by (rule disjI2)
    next
      case False
      have "propagated (propagate a') l fn = propagated (propagate a) l fn"
        using e[rule_format, of l fn] unfolding if_not_P[OF False] .
      then show ?thesis by (rule disjI1)
    qed
  qed
  with d show ?thesis by blast
qed

lemma release_loop_propagate:
  "release_loop c cfg tasks (p, a) = (r, p', a') \<Longrightarrow>
     (distinct (map fst (propagate a)) \<longrightarrow> distinct (map fst (propagate a')))
     \<and> (\<forall>l fn. propagated (propagate a') l fn = propagated (propagate a) l fn
          \<or> (\<exists>t \<in> set tasks. \<exists>h w s0 tr0 tu fu uu s1 tr1.
                map_of (taskhandlers p) (tag t) = Some h
              \<and> workflow_named cfg (dataset h) = Some w
              \<and> handler_process c h t s0 tr0 = ((False, tu, fu, uu), s1, tr1)
              \<and> (merge_size w \<le> 0 \<or> is_merge h) \<and> outputs h \<noteq> []
              \<and> l \<in> set (dependents w) \<and> fn = snd (hd (outputs h))
              \<and> propagated (propagate a') l fn = Some (output_info h)))"
proof (induction tasks arbitrary: p a)
  case Nil
  then show ?case by simp
next
  case (Cons t tasks)
  obtain r1 p1 a1 where s: "release_task c cfg t (p, a) = (r1, p1, a1)" by (metis prod_cases3)
  note st = release_task_propagate[OF s]
  note g = release_task_grows[OF s]
  show ?case
  proof (cases r1)
    case (Some e)
    with Cons.prems s have "p' = p1" "a' = a1" by simp_all
    with st show ?thesis by (simp, blast)
  next
    case None
    with Cons.prems s have l: "release_loop c cfg tasks (p1, a1) = (r, p', a')" by simp
    note ih = Cons.IH[OF l]
    have d: "distinct (map fst (propagate a)) \<longrightarrow> distinct (map fst (propagate a'))"
      using st ih by blast
    have "\<forall>l fn. propagated (propagate a') l fn = propagated (propagate a) l fn
          \<or> (\<exists>t \<in> set (t # tasks). \<exists>h w s0 tr0 tu fu uu s1 tr1.
                map_of (taskhandlers p) (tag t) = Some h
              \<and> workflow_named cfg (dataset h) = Some w
              \<and> handler_process c h t s0 tr0 = ((False, tu, fu, uu), s1, tr1)
              \<and> (merge_size w \<le> 0 \<or> is_merge h) \<and> outputs h \<noteq> []
              \<and> l \<in> set (dependents w) \<and> fn = snd (hd (outputs h))
              \<and> propagated (propagate a') l fn = Some (output_info h))"
    proof (intro allI)
      fix l fn
      from ih have "propagated (propagate a') l fn = propagated (propagate a1) l fn
          \<or> (\<exists>t \<in> set tasks. \<exists>h w s0 tr0 tu fu uu s1 tr1.
                map_of (taskhandlers p1) (tag t) = Some h
              \<and> workflow_named cfg (dataset h) = Some w
              \<and> handler_process c h t s0 tr0 = ((False, tu, fu, uu), s1, tr1)
              \<and> (merge_size w \<le> 0 \<or> is_merge h) \<and> outputs h \<noteq> []
              \<and> l \<in> set (dependents w) \<and> fn = snd (hd (outputs h))
              \<and> propagated (propagate a') l fn = Some (output_info h))" by blast
      then show "propagated (propagate a') l fn = propagated (propagate a) l fn
          \<or> (\<exists>t \<in> set (t # tasks). \<exists>h w s0 tr0 tu fu uu s1 tr1.
                map_of (taskhandlers p) (tag t) = Some h
              \<and> workflow_named cfg (dataset h) = Some w
              \<and> handler_process c h t s0 tr0 = ((False, tu, fu, uu), s1, tr1)
              \<and> (merge_size w \<le> 0 \<or> is_merge h) \<and> outputs h \<noteq> []
              \<and> l \<in> set (dependents w) \<and> fn = snd (hd (outputs h))
              \<and> propagated (propagate a') l fn = Some (output_info h))"
      proof
        assume eq: "propagated (propagate a') l fn = propagated (propagate a1) l fn"
        from st have "propagated (propagate a1) l fn = propagated (propagate a) l fn
          \<or> (\<exists>h w s0 tr0 tu fu uu s1 tr1.
                map_of (taskhandlers p) (tag t) = Some h
              \<and> workflow_named cfg (dataset h) = Some w
              \<and> handler_process c h t s0 tr0 = ((False, tu, fu, uu), s1, tr1)
              \<and> (merge_size w \<le> 0 \<or> is_merge h) \<and> outputs h \<noteq> []
              \<and> l \<in> set (dependents w) \<and> fn = snd (hd (outputs h))
              \<and> propagated (propagate a1) l fn = Some (output_info h))" by blast
        then show ?thesis
        proof
          assume "propagated (propagate a1) l fn = propagated (propagate a) l fn"
          with eq show ?thesis by simp
        next
          assume "\<exists>h w s0 tr0 tu fu uu s1 tr1.
                map_of (taskhandlers p) (tag t) = Some h
              \<and> workflow_named cfg (dataset h) = Some w
              \<and> handler_process c h t s0 tr0 = ((False, tu, fu, uu), s1, tr1)
              \<and> (merge_size w \<le> 0 \<or> is_merge h) \<and> outputs h \<noteq> []
              \<and> l \<in> set (dependents w) \<and> fn = snd (hd (outputs h))
              \<and> propagated (propagate a1) l fn = Some (output_info h)"
          then obtain h w s0 tr0 tu fu uu s1 tr1 where
            "map_of (taskhandlers p) (tag t) = Some h" "workflow_named cfg (dataset h) = Some w"
            "handler_process c h t s0 tr0 = ((False, tu, fu, uu), s1, tr1)"
            "(merge_size w \<le> 0 \<or> is_merge h) \<and> outputs h \<noteq> []"
            "l \<in> set (dependents w) \<and> fn = snd (hd (outputs h))"
            "propagated (propagate a1) l fn = Some (output_info h)" by blast
          with eq have "\<exists>t' \<in> set (t # tasks). \<exists>h w s0 tr0 tu fu uu s1 tr1.
                map_of (taskhandlers p) (tag t') = Some h
              \<and> workflow_named cfg (dataset h) = Some w
              \<and> handler_process c h t' s0 tr0 = ((False, tu, fu, uu), s1, tr1)
              \<and> (merge_size w \<le> 0 \<or> is_merge h) \<and> outputs h \<noteq> []
              \<and> l \<in> set (dependents w) \<and> fn = snd (hd (outputs h))
              \<and> propagated (propagate a') l fn = Some (output_info h)"
            by (intro bexI[of _ t]) (simp, blast, simp)
          then show ?thesis by blast
        qed
      next
        assume "\<exists>t \<in> set tasks. \<exists>h w s0 tr0 tu fu uu s1 tr1.
                map_of (taskhandlers p1) (tag t) = Some h
              \<and> workflow_named cfg (dataset h) = Some w
              \<and> handler_process c h t s0 tr0 = ((False, tu, fu, uu), s1, tr1)
              \<and> (merge_size w \<le> 0 \<or> is_merge h) \<and> outputs h \<noteq> []
              \<and> l \<in> set (dependents w) \<and> fn = snd (hd (outputs h))
              \<and> propagated (propagate a') l fn = Some (output_info h)"
        then obtain t' h w s0 tr0 tu fu uu s1 tr1 where t': "t' \<in> set tasks"
          and f: "map_of (taskhandlers p1) (tag t') = Some h" "workflow_named cfg (dataset h) = Some w"
            "handler_process c h t' s0 tr0 = ((False, tu, fu, uu), s1, tr1)"
            "(merge_size w \<le> 0 \<or> is_merge h) \<and> outputs h \<noteq> []"
            "l \<in> set (dependents w) \<and> fn = snd (hd (outputs h))"
            "propagated (propagate a') l fn = Some (output_info h)" by blast
        from g f(1) have "map_of (taskhandlers p) (tag t') = Some h" by blast
        with t' f have "\<exists>t' \<in> set (t # tasks). \<exists>h w s0 tr0 tu fu uu s1 tr1.
                map_of (taskhandlers p) (tag t') = Some h
              \<and> workflow_named cfg (dataset h) = Some w
              \<and> handler_process c h t' s0 tr0 = ((False, tu, fu, uu), s1, tr1)
              \<and> (merge_size w \<le> 0 \<or> is_merge h) \<and> outputs h \<noteq> []
              \<and> l \<in> set (dependents w) \<and> fn = snd (hd (outputs h))
              \<and> propagated (propagate a') l fn = Some (output_info h)"
          by (intro bexI[of _ t']) (blast, simp)
        then show ?thesis by blast
      qed
    qed
    with d show ?thesis by blast
  qed
qed

lemma replaysI:
  "trace p' = trace p @ evs \<Longrightarrow> store p' = fold (store_apply c) (store_calls evs) (store p) \<Longrightarrow> replays c p p'"
  by (simp add: replays_def)

lemma replaysD:
  "replays c p p' \<Longrightarrow> \<exists>evs. trace p' = trace p @ evs \<and> store p' = fold (store_apply c) (store_calls evs) (store p)"
  unfolding replays_def by (metis append_take_drop_id)

lemma replays_refl: "replays c p p"
  by (simp add: replays_def)

lemma replays_trans: "replays c p q \<Longrightarrow> replays c q r \<Longrightarrow> replays c p r"
  by (auto dest!: replaysD intro!: replaysI[where evs = "_ @ _"] simp: store_calls_append)

lemma replays_calls:
  "replays c p p' \<Longrightarrow> store_calls (trace p') = store_calls (trace p) @ cs \<Longrightarrow>
     store p' = fold (store_apply c) cs (store p)"
  by (auto dest!: replaysD simp: store_calls_append)

lemma replays_emit_free:
  "store_calls evs = [] \<Longrightarrow> replays c p (emit evs p)"
  by (rule replaysI[of _ _ evs]) (simp_all add: emit_def)

lemma andthen_replays:
  assumes "andthen r f = (res, y)"
    and "replays c p (snd r)"
    and "\<And>x r' y'. f x = (r', y') \<Longrightarrow> replays c x y'"
  shows "replays c p y"
  using assms by (cases r) (auto simp: andthen_def split: option.splits intro: replays_trans)

lemma report_status_replays:
  assumes "report_status c st tasks p = (r, p')"
  shows "replays c p p'"
proof -
  from report_status_grows[OF assms] obtain evs where e: "trace p' = trace p @ evs" by blast
  with report_status_frame[OF assms] have "store_calls evs = []" "store p' = store p"
    by (simp_all add: store_calls_append)
  with e show ?thesis by (intro replaysI[of _ _ evs]) simp_all
qed

lemma release_task_replays:
  "release_task c cfg t (p, a) = (r, p', a') \<Longrightarrow> replays c p p'"
  by (auto simp: release_task_def handle_result_def emit_def Let_def replays_def
      split: option.splits prod.splits if_splits)

lemma release_loop_replays:
  "release_loop c cfg tasks (p, a) = (r, p', a') \<Longrightarrow> replays c p p'"
proof (induction tasks arbitrary: p a)
  case Nil
  then show ?case by (simp add: replays_refl)
next
  case (Cons t tasks)
  obtain r1 p1 a1 where s: "release_task c cfg t (p, a) = (r1, p1, a1)" by (metis prod_cases3)
  note f = release_task_replays[OF s]
  show ?case
  proof (cases r1)
    case (Some e)
    with Cons.prems s f show ?thesis by auto
  next
    case None
    with Cons.prems s have l: "release_loop c cfg tasks (p1, a1) = (r, p', a')" by simp
    from replays_trans[OF f Cons.IH[OF l]] show ?thesis .
  qed
qed

lemma commit_updates_replays: "commit_updates c a p = (r, p') \<Longrightarrow> replays c p p'"
  by (auto simp: commit_updates_def emit_def replays_def split: if_splits)

lemma remove_files_replays: "remove_files c tasks cl p = (r, p') \<Longrightarrow> replays c p p'"
  by (auto simp: remove_files_def emit_def replays_def split: if_splits option.splits list.splits)

lemma cleanup_files_replays:
  assumes "cleanup_files c tasks a p = (r, p')"
  shows "replays c p p'"
proof -
  define ic where "ic = (if length (input_files_l a) > 0
      then input_cleanup a @ fst (finished_files c (store p) (input_files_l a)) else input_cleanup a)"
  define p1 where "p1 = (if length (input_files_l a) > 0
      then emit [Store (Finished_files (input_files_l a))]
             (p\<lparr>store := snd (finished_files c (store p) (input_files_l a))\<rparr>) else p)"
  have t1: "replays c p p1"
    by (simp add: p1_def emit_def replays_def)
  have cf: "cleanup_files c tasks a p =
      andthen (remove_files c tasks (fail_cleanup a) p1) (remove_files c tasks (merge_cleanup a @ ic))"
    by (simp add: cleanup_files_def ic_def p1_def split_def)
  have "replays c p1 (snd (remove_files c tasks (fail_cleanup a) p1))"
    using remove_files_replays[of c tasks "fail_cleanup a" p1] by (metis prod.collapse)
  with t1 have "replays c p (snd (remove_files c tasks (fail_cleanup a) p1))" by (rule replays_trans)
  from andthen_replays[OF assms[unfolded cf] this remove_files_replays] show ?thesis .
qed

lemma register_outputs_replays: "register_outputs c cfg pr p = (r, p') \<Longrightarrow> replays c p p'"
proof (induction pr arbitrary: p)
  case Nil
  then show ?case by (simp add: replays_refl)
next
  case (Cons x pr)
  obtain l infos where x: "x = (l, infos)" by (metis prod.collapse)
  show ?case
  proof (cases "workflow_named cfg l")
    case None
    with Cons.prems x show ?thesis by (auto simp: replays_refl)
  next
    case (Some w)
    let ?q = "emit [Store (Register_files infos l (unique_arguments w))]
               (p\<lparr>store := register_files c (store p) infos l (unique_arguments w)\<rparr>)"
    from Cons.prems x Some have "register_outputs c cfg pr ?q = (r, p')" by simp
    from Cons.IH[OF this] have "replays c ?q p'" .
    moreover have "replays c p ?q" by (simp add: emit_def replays_def)
    ultimately show ?thesis by (blast intro: replays_trans)
  qed
qed

lemma commit_transfers_replays: "commit_transfers c a p = (r, p') \<Longrightarrow> replays c p p'"
  by (auto simp: commit_transfers_def emit_def replays_def split: if_splits)

lemma index_summary_replays: "index_summary c cfg p = (r, p') \<Longrightarrow> replays c p p'"
  by (auto simp: index_summary_def emit_def replays_def split: if_splits option.splits)

lemma release_commit_replays:
  assumes "release_commit c cfg tasks a p = (r, p')"
  shows "replays c p p'"
proof -
  let ?s0 = "report_status c RETRIEVED tasks p"
  let ?s1 = "andthen ?s0 (commit_updates c a)"
  let ?s2 = "andthen ?s1 (cleanup_files c tasks a)"
  let ?s3 = "andthen ?s2 (register_outputs c cfg (propagate a))"
  let ?s4 = "andthen ?s3 (commit_transfers c a)"
  have 0: "replays c p (snd ?s0)"
    using report_status_replays[of c RETRIEVED tasks p] by (metis prod.collapse)
  have 1: "replays c p (snd ?s1)"
    by (rule andthen_replays[OF _ 0 commit_updates_replays]) (rule prod.collapse[symmetric])
  have 2: "replays c p (snd ?s2)"
    by (rule andthen_replays[OF _ 1 cleanup_files_replays]) (rule prod.collapse[symmetric])
  have 3: "replays c p (snd ?s3)"
    by (rule andthen_replays[OF _ 2 register_outputs_replays]) (rule prod.collapse[symmetric])
  have 4: "replays c p (snd ?s4)"
    by (rule andthen_replays[OF _ 3 commit_transfers_replays]) (rule prod.collapse[symmetric])
  from andthen_replays[OF assms[unfolded release_commit_def] 4 index_summary_replays] show ?thesis .
qed

lemma release_replays:
  assumes "release c cfg tasks p = (r, p')"
  shows "replays c p p'"
proof -
  obtain r0 p0 where r0: "report_status c DONE tasks p = (r0, p0)" by (metis prod.collapse)
  obtain r1 p1 a where l: "release_loop c cfg tasks (p0, release_locals_init) = (r1, p1, a)"
    by (metis prod_cases3)
  note a = report_status_replays[OF r0]
  note b = replays_trans[OF a release_loop_replays[OF l]]
  show ?thesis
  proof (cases r0)
    case (Some e)
    with assms r0 a show ?thesis by (simp add: release_def)
  next
    case None
    show ?thesis
    proof (cases r1)
      case (Some e)
      with assms r0 l None b show ?thesis by (simp add: release_def)
    next
      case n: None
      with assms r0 l None have "release_commit c cfg tasks a p1 = (r, p')" by (simp add: release_def)
      from replays_trans[OF b release_commit_replays[OF this]] show ?thesis .
    qed
  qed
qed

lemma propagated_of_entry:
  "distinct (map fst pr) \<Longrightarrow> (l, infos) \<in> set pr \<Longrightarrow> propagated pr l fn = map_of infos fn"
  by (simp add: propagated_def get_default_def)

text \<open>
  Claim C1. Whenever \<open>release\<close> returns over a list of completed tasks, every task of the
  list was handled, at its place in the loop, with the handler stored under its tag when
  \<open>release\<close> began and the workflow of that handler. Handling it appended the local names
  of its outputs to \<open>fail_cleanup\<close> when the handler reported failure, and otherwise set
  \<open>propagate[dep][outfn]\<close> to the handler's output metadata for the first output file
  and every dependent \<open>dep\<close> of the workflow exactly when the workflow's \<open>merge_size\<close>
  is at most 0 or the handler is a merge handler, and the handler has an output; every
  other entry of \<open>propagate\<close> was left as it was. The whole call moved one task directory
  per task, in the order of the tasks, and the directory of this task went to \<open>failed\<close>
  when its handler reported failure and to \<open>successful\<close> otherwise. The outputs of a
  failed task are in the list \<open>fail_cleanup\<close> that \<open>fs.remove\<close> was called with. The
  store calls of the whole \<open>release\<close> are \<open>update_units\<close>, \<open>finished_files\<close>, one
  \<open>register_files\<close> per label of \<open>propagate\<close> with the entries collected for that
  label, \<open>update_transfers\<close> and \<open>workflow_status\<close>, each under its own condition, and
  the store that \<open>release\<close> leaves is the store after these calls. For a successful task
  that qualifies as above, the \<open>register_files\<close> call of every dependent carries an
  entry under the name of the first output file; its value is the output metadata of this
  handler, unless a later task of the list whose first output has the same name has
  written the entry anew (\<open>propagate[dep][outfn]\<close> is one dictionary entry). Conversely,
  every entry that is registered stems from a task of the list whose handler reported
  success and that qualified: nothing is propagated for a failed task, nor for a task of
  a workflow that awaits merging.
\<close>

theorem release_handles_each_task:
  assumes "release c cfg (xs @ task # ys) p = (None, p')"
  shows "\<exists>h w failed tu fu uu summ tr ms p0 p1 a1 p2 a2 pe (ae :: release_locals).
      map_of (taskhandlers p) (tag task) = Some h
    \<and> workflow_named cfg (dataset h) = Some w
    \<and> report_status c DONE (xs @ task # ys) p = (None, p0)
    \<and> release_loop c cfg xs (p0, release_locals_init) = (None, p1, a1)
    \<and> handler_process c h task (summary a1) (transfers_l a1) = ((failed, tu, fu, uu), summ, tr)
    \<and> release_task c cfg task (p1, a1) = (None, p2, a2)
    \<and> fail_cleanup a2 = fail_cleanup a1 @ (if failed then map snd (outputs h) else [])
    \<and> (\<forall>l fn. propagated (propagate a2) l fn =
          (if \<not> failed \<and> (merge_size w \<le> 0 \<or> is_merge h) \<and> outputs h \<noteq> []
              \<and> l \<in> set (dependents w) \<and> fn = snd (hd (outputs h))
           then Some (output_info h) else propagated (propagate a1) l fn))
    \<and> release_loop c cfg ys (p2, a2) = (None, pe, ae)
    \<and> release_commit c cfg (xs @ task # ys) ae pe = (None, p')
    \<and> moves (trace p') = moves (trace p) @ ms
    \<and> length ms = length (xs @ task # ys)
    \<and> ms ! length xs = (workdir w, handler_id h, if failed then ''failed'' else ''successful'')
    \<and> (failed \<longrightarrow> set (map snd (outputs h)) \<subseteq> set (fail_cleanup ae))
    \<and> (fail_cleanup ae \<noteq> [] \<longrightarrow> Fs_remove (fail_cleanup ae) \<in> set (trace p'))
    \<and> store_calls (trace p') =
        store_calls (trace p)
        @ (if update_l ae = [] then [] else [Update_units (update_l ae)])
        @ (if input_files_l ae = [] then [] else [Finished_files (input_files_l ae)])
        @ map (\<lambda>(l, infos). Register_files infos l (unique_arguments (the (workflow_named cfg l)))) (propagate ae)
        @ (if transfers_l ae = [] then [] else [Update_transfers (transfers_l ae)])
        @ (if elk cfg then [Workflow_status] else [])
    \<and> distinct (map fst (propagate ae))
    \<and> store p' = fold (store_apply c)
        ((if update_l ae = [] then [] else [Update_units (update_l ae)])
         @ (if input_files_l ae = [] then [] else [Finished_files (input_files_l ae)])
         @ map (\<lambda>(l, infos). Register_files infos l (unique_arguments (the (workflow_named cfg l)))) (propagate ae)
         @ (if transfers_l ae = [] then [] else [Update_transfers (transfers_l ae)])
         @ (if elk cfg then [Workflow_status] else [])) (store p)
    \<and> (\<not> failed \<and> (merge_size w \<le> 0 \<or> is_merge h) \<and> outputs h \<noteq> [] \<longrightarrow>
         (\<forall>l \<in> set (dependents w). \<exists>infos v.
             (l, infos) \<in> set (propagate ae) \<and> map_of infos (snd (hd (outputs h))) = Some v
           \<and> (v = output_info h
               \<or> (\<exists>t' \<in> set ys. \<exists>h'. map_of (taskhandlers p) (tag t') = Some h' \<and> outputs h' \<noteq> []
                     \<and> snd (hd (outputs h')) = snd (hd (outputs h)) \<and> v = output_info h'))))
    \<and> (\<forall>l infos fn v. (l, infos) \<in> set (propagate ae) \<and> map_of infos fn = Some v \<longrightarrow>
         (\<exists>t \<in> set (xs @ task # ys). \<exists>h w s0 tr0 tu fu uu s1 tr1.
              map_of (taskhandlers p) (tag t) = Some h
            \<and> workflow_named cfg (dataset h) = Some w
            \<and> handler_process c h t s0 tr0 = ((False, tu, fu, uu), s1, tr1)
            \<and> (merge_size w \<le> 0 \<or> is_merge h) \<and> outputs h \<noteq> []
            \<and> l \<in> set (dependents w) \<and> fn = snd (hd (outputs h)) \<and> v = output_info h))"
proof -
  let ?tasks = "xs @ task # ys"
  obtain r0 p0 where r0: "report_status c DONE ?tasks p = (r0, p0)" by (metis prod.collapse)
  obtain r pe ae where l: "release_loop c cfg ?tasks (p0, release_locals_init) = (r, pe, ae)"
    by (metis prod_cases3)
  from assms r0 l have n: "r0 = None" "r = None" and cm: "release_commit c cfg ?tasks ae pe = (None, p')"
    by (auto simp: release_def split: option.splits)
  from r0 n have r0': "report_status c DONE ?tasks p = (None, p0)" by simp
  from l n have l': "release_loop c cfg ?tasks (p0, release_locals_init) = (None, pe, ae)" by simp
  note f0 = report_status_frame[OF r0']
  from report_status_grows[OF r0'] have m0: "moves (trace p0) = moves (trace p)" by (auto simp: moves_append)
  from release_loop_split[OF l'] obtain p1 a1 p2 a2 where
    l1: "release_loop c cfg xs (p0, release_locals_init) = (None, p1, a1)"
    and st: "release_task c cfg task (p1, a1) = (None, p2, a2)"
    and l2: "release_loop c cfg ys (p2, a2) = (None, pe, ae)"
    by auto
  from release_task_succeeds[OF st] obtain h failed tu fu uu summ tr w where
    h1: "map_of (taskhandlers p1) (tag task) = Some h"
    and pr: "handler_process c h task (summary a1) (transfers_l a1) = ((failed, tu, fu, uu), summ, tr)"
    and w: "workflow_named cfg (dataset h) = Some w"
    by blast
  have up1: "\<And>k x. map_of (taskhandlers p1) k = Some x \<Longrightarrow> map_of (taskhandlers p) k = Some x"
    using release_loop_grows[OF l1] f0 by auto
  have up2: "\<And>k x. map_of (taskhandlers p2) k = Some x \<Longrightarrow> map_of (taskhandlers p) k = Some x"
    using release_task_grows[OF st] up1 by blast
  have h: "map_of (taskhandlers p) (tag task) = Some h" using up1[OF h1] .
  from release_task_effect[OF h1 pr w] st have
    mv: "moves (trace p2) = moves (trace p1) @ [(workdir w, handler_id h, if failed then ''failed'' else ''successful'')]"
    and fc: "fail_cleanup a2 = fail_cleanup a1 @ (if failed then map snd (outputs h) else [])"
    and pg: "\<forall>l fn. propagated (propagate a2) l fn =
          (if \<not> failed \<and> (merge_size w \<le> 0 \<or> is_merge h) \<and> outputs h \<noteq> []
              \<and> l \<in> set (dependents w) \<and> fn = snd (hd (outputs h))
           then Some (output_info h) else propagated (propagate a1) l fn)"
    by auto
  from release_loop_moves[OF l1] obtain ms1 where ms1: "moves (trace p1) = moves (trace p0) @ ms1"
    "length ms1 = length xs" by blast
  from release_loop_moves[OF l2] obtain ms2 where ms2: "moves (trace pe) = moves (trace p2) @ ms2"
    "length ms2 = length ys" by blast
  note rc = release_commit_returns[OF cm]
  let ?mv = "(workdir w, handler_id h, if failed then ''failed'' else ''successful'')"
  let ?ms = "ms1 @ ?mv # ms2"
  have M1: "moves (trace p') = moves (trace p) @ ?ms" using rc m0 ms1 mv ms2 by simp
  have M2: "length ?ms = length ?tasks" using ms1 ms2 by simp
  have M3: "?ms ! length xs = ?mv" using ms1(2) by (simp add: nth_append)
  from release_loop_grows[OF l2] obtain fc2 where "fail_cleanup ae = fail_cleanup a2 @ fc2" by blast
  with fc have F1: "failed \<longrightarrow> set (map snd (outputs h)) \<subseteq> set (fail_cleanup ae)" by auto
  have F2: "fail_cleanup ae \<noteq> [] \<longrightarrow> Fs_remove (fail_cleanup ae) \<in> set (trace p')" using rc by blast
  have sc0: "store_calls (trace pe) = store_calls (trace p)"
    using release_loop_frame[OF l'] f0 by simp
  have S: "store_calls (trace p') =
        store_calls (trace p)
        @ (if update_l ae = [] then [] else [Update_units (update_l ae)])
        @ (if input_files_l ae = [] then [] else [Finished_files (input_files_l ae)])
        @ map (\<lambda>(l, infos). Register_files infos l (unique_arguments (the (workflow_named cfg l)))) (propagate ae)
        @ (if transfers_l ae = [] then [] else [Update_transfers (transfers_l ae)])
        @ (if elk cfg then [Workflow_status] else [])"
    using rc sc0 by simp
  have R: "store p' = fold (store_apply c)
        ((if update_l ae = [] then [] else [Update_units (update_l ae)])
         @ (if input_files_l ae = [] then [] else [Finished_files (input_files_l ae)])
         @ map (\<lambda>(l, infos). Register_files infos l (unique_arguments (the (workflow_named cfg l)))) (propagate ae)
         @ (if transfers_l ae = [] then [] else [Update_transfers (transfers_l ae)])
         @ (if elk cfg then [Workflow_status] else [])) (store p)"
    by (rule replays_calls[OF release_replays[OF assms] S])
  have D: "distinct (map fst (propagate ae))"
    using release_loop_propagate[OF l'] by (simp add: release_locals_init_def)
  have P: "\<not> failed \<and> (merge_size w \<le> 0 \<or> is_merge h) \<and> outputs h \<noteq> [] \<longrightarrow>
         (\<forall>l \<in> set (dependents w). \<exists>infos v.
             (l, infos) \<in> set (propagate ae) \<and> map_of infos (snd (hd (outputs h))) = Some v
           \<and> (v = output_info h
               \<or> (\<exists>t' \<in> set ys. \<exists>h'. map_of (taskhandlers p) (tag t') = Some h' \<and> outputs h' \<noteq> []
                     \<and> snd (hd (outputs h')) = snd (hd (outputs h)) \<and> v = output_info h')))"
  proof (intro impI ballI)
    fix l
    assume q: "\<not> failed \<and> (merge_size w \<le> 0 \<or> is_merge h) \<and> outputs h \<noteq> []"
      and ld: "l \<in> set (dependents w)"
    let ?fn = "snd (hd (outputs h))"
    from pg q ld have v2: "propagated (propagate a2) l ?fn = Some (output_info h)" by simp
    from release_loop_propagate[OF l2] have
      "propagated (propagate ae) l ?fn = propagated (propagate a2) l ?fn
          \<or> (\<exists>t \<in> set ys. \<exists>h w s0 tr0 tu fu uu s1 tr1.
                map_of (taskhandlers p2) (tag t) = Some h
              \<and> workflow_named cfg (dataset h) = Some w
              \<and> handler_process c h t s0 tr0 = ((False, tu, fu, uu), s1, tr1)
              \<and> (merge_size w \<le> 0 \<or> is_merge h) \<and> outputs h \<noteq> []
              \<and> l \<in> set (dependents w) \<and> ?fn = snd (hd (outputs h))
              \<and> propagated (propagate ae) l ?fn = Some (output_info h))" by blast
    then have "\<exists>v. propagated (propagate ae) l ?fn = Some v
           \<and> (v = output_info h
               \<or> (\<exists>t' \<in> set ys. \<exists>h'. map_of (taskhandlers p) (tag t') = Some h' \<and> outputs h' \<noteq> []
                     \<and> snd (hd (outputs h')) = ?fn \<and> v = output_info h'))"
    proof
      assume "propagated (propagate ae) l ?fn = propagated (propagate a2) l ?fn"
      with v2 show ?thesis by simp
    next
      assume "\<exists>t \<in> set ys. \<exists>h w s0 tr0 tu fu uu s1 tr1.
                map_of (taskhandlers p2) (tag t) = Some h
              \<and> workflow_named cfg (dataset h) = Some w
              \<and> handler_process c h t s0 tr0 = ((False, tu, fu, uu), s1, tr1)
              \<and> (merge_size w \<le> 0 \<or> is_merge h) \<and> outputs h \<noteq> []
              \<and> l \<in> set (dependents w) \<and> ?fn = snd (hd (outputs h))
              \<and> propagated (propagate ae) l ?fn = Some (output_info h)"
      then obtain t' h' where t': "t' \<in> set ys" and hh: "map_of (taskhandlers p2) (tag t') = Some h'"
        and o: "outputs h' \<noteq> []" "?fn = snd (hd (outputs h'))"
        and v: "propagated (propagate ae) l ?fn = Some (output_info h')" by blast
      from up2[OF hh] t' o v show ?thesis by auto
    qed
    then obtain v where v: "propagated (propagate ae) l ?fn = Some v"
      and alt: "v = output_info h
               \<or> (\<exists>t' \<in> set ys. \<exists>h'. map_of (taskhandlers p) (tag t') = Some h' \<and> outputs h' \<noteq> []
                     \<and> snd (hd (outputs h')) = ?fn \<and> v = output_info h')" by blast
    from propagated_entry[OF v] obtain infos where "(l, infos) \<in> set (propagate ae)" "map_of infos ?fn = Some v"
      by blast
    with alt show "\<exists>infos v.
             (l, infos) \<in> set (propagate ae) \<and> map_of infos ?fn = Some v
           \<and> (v = output_info h
               \<or> (\<exists>t' \<in> set ys. \<exists>h'. map_of (taskhandlers p) (tag t') = Some h' \<and> outputs h' \<noteq> []
                     \<and> snd (hd (outputs h')) = ?fn \<and> v = output_info h'))" by blast
  qed
  have N: "\<forall>l infos fn v. (l, infos) \<in> set (propagate ae) \<and> map_of infos fn = Some v \<longrightarrow>
         (\<exists>t \<in> set ?tasks. \<exists>h w s0 tr0 tu fu uu s1 tr1.
              map_of (taskhandlers p) (tag t) = Some h
            \<and> workflow_named cfg (dataset h) = Some w
            \<and> handler_process c h t s0 tr0 = ((False, tu, fu, uu), s1, tr1)
            \<and> (merge_size w \<le> 0 \<or> is_merge h) \<and> outputs h \<noteq> []
            \<and> l \<in> set (dependents w) \<and> fn = snd (hd (outputs h)) \<and> v = output_info h)"
  proof (intro allI impI)
    fix l infos fn v
    assume e: "(l, infos) \<in> set (propagate ae) \<and> map_of infos fn = Some v"
    with propagated_of_entry[OF D, of l infos fn] have pv: "propagated (propagate ae) l fn = Some v" by simp
    have i: "propagated (propagate release_locals_init) l fn = None"
      by (simp add: release_locals_init_def propagated_def get_default_def)
    from release_loop_propagate[OF l'] have
      "propagated (propagate ae) l fn = propagated (propagate release_locals_init) l fn
          \<or> (\<exists>t \<in> set ?tasks. \<exists>h w s0 tr0 tu fu uu s1 tr1.
                map_of (taskhandlers p0) (tag t) = Some h
              \<and> workflow_named cfg (dataset h) = Some w
              \<and> handler_process c h t s0 tr0 = ((False, tu, fu, uu), s1, tr1)
              \<and> (merge_size w \<le> 0 \<or> is_merge h) \<and> outputs h \<noteq> []
              \<and> l \<in> set (dependents w) \<and> fn = snd (hd (outputs h))
              \<and> propagated (propagate ae) l fn = Some (output_info h))" by blast
    with pv i f0 show "\<exists>t \<in> set ?tasks. \<exists>h w s0 tr0 tu fu uu s1 tr1.
              map_of (taskhandlers p) (tag t) = Some h
            \<and> workflow_named cfg (dataset h) = Some w
            \<and> handler_process c h t s0 tr0 = ((False, tu, fu, uu), s1, tr1)
            \<and> (merge_size w \<le> 0 \<or> is_merge h) \<and> outputs h \<noteq> []
            \<and> l \<in> set (dependents w) \<and> fn = snd (hd (outputs h)) \<and> v = output_info h"
      by (elim disjE) (simp, force)
  qed
  show ?thesis
    apply (intro exI conjI)
                       apply (rule h)
                      apply (rule w)
                     apply (rule r0')
                    apply (rule l1)
                   apply (rule pr)
                  apply (rule st)
                 apply (rule fc)
                apply (rule pg)
               apply (rule l2)
              apply (rule cm)
             apply (rule M1)
            apply (rule M2)
           apply (rule M3)
          apply (rule F1)
         apply (rule F2)
        apply (rule S)
       apply (rule D)
      apply (rule R)
     apply (rule P)
    apply (rule N)
    done
qed

lemmas demo_defs = release_def release_commit_def report_status_def monitor_update_task_status_def
  commit_updates_def cleanup_files_def remove_files_def commit_transfers_def index_summary_def
  release_task_def handle_result_def demo_def demo_config_def two_handlers_def
  release_locals_init_def task_ok_def task_bad_def handler_for_def workflow_named_def wf_a_def wf_b_def
  emit_def dd_modify_def summary_dir_def summary_init_def ledger_init_def

lemma release_ev: "release demo demo_config [task_ok, task_bad] two_handlers = (None, released)"
  by (simp add: demo_defs released_def)

lemma release_io_ev: "release demo_io demo_config [task_ok, task_bad] two_handlers = (None, released)"
  by (simp add: demo_defs released_def demo_io_def)

text \<open>
  The run of \<open>release\<close> over a successful task 10 and a failed task 11 of workflow a, whose
  dependent is workflow b: both directories are moved, the output of task 11 is removed,
  and the output metadata of task 10 reaches the store in a \<open>register_files\<close> call for b.
\<close>

theorem release_handles_each_task_witness:
  "release demo demo_config ([] @ task_ok # [task_bad]) two_handlers = (None, released)
   \<and> moves (trace released) = [(''work/a'', 10, ''successful''), (''work/a'', 11, ''failed'')]
   \<and> Fs_remove [''out''] \<in> set (trace released)
   \<and> store_calls (trace released) =
        [Update_units [((''a'', ''units''), [(10, [], []), (11, [], [])])], Register_files [(''out'', 7)] ''b'' []]
   \<and> registered (store released) = [([(''out'', 7)], ''b'', [])]
   \<and> (\<exists>h w failed tu fu uu summ tr ms p0 p1 a1 p2 a2 pe (ae :: release_locals).
      map_of (taskhandlers two_handlers) (tag task_ok) = Some h
    \<and> workflow_named demo_config (dataset h) = Some w
    \<and> report_status demo DONE (([] :: wq_task list) @ task_ok # [task_bad]) two_handlers = (None, p0)
    \<and> release_loop demo demo_config ([] :: wq_task list) (p0, release_locals_init) = (None, p1, a1)
    \<and> handler_process demo h task_ok (summary a1) (transfers_l a1) = ((failed, tu, fu, uu), summ, tr)
    \<and> release_task demo demo_config task_ok (p1, a1) = (None, p2, a2)
    \<and> fail_cleanup a2 = fail_cleanup a1 @ (if failed then map snd (outputs h) else [])
    \<and> (\<forall>l fn. propagated (propagate a2) l fn =
          (if \<not> failed \<and> (merge_size w \<le> 0 \<or> is_merge h) \<and> outputs h \<noteq> []
              \<and> l \<in> set (dependents w) \<and> fn = snd (hd (outputs h))
           then Some (output_info h) else propagated (propagate a1) l fn))
    \<and> release_loop demo demo_config [task_bad] (p2, a2) = (None, pe, ae)
    \<and> release_commit demo demo_config (([] :: wq_task list) @ task_ok # [task_bad]) ae pe = (None, released)
    \<and> moves (trace released) = moves (trace two_handlers) @ ms
    \<and> length ms = length (([] :: wq_task list) @ task_ok # [task_bad])
    \<and> ms ! length ([] :: wq_task list) = (workdir w, handler_id h, if failed then ''failed'' else ''successful'')
    \<and> (failed \<longrightarrow> set (map snd (outputs h)) \<subseteq> set (fail_cleanup ae))
    \<and> (fail_cleanup ae \<noteq> [] \<longrightarrow> Fs_remove (fail_cleanup ae) \<in> set (trace released))
    \<and> store_calls (trace released) =
        store_calls (trace two_handlers)
        @ (if update_l ae = [] then [] else [Update_units (update_l ae)])
        @ (if input_files_l ae = [] then [] else [Finished_files (input_files_l ae)])
        @ map (\<lambda>(l, infos). Register_files infos l (unique_arguments (the (workflow_named demo_config l)))) (propagate ae)
        @ (if transfers_l ae = [] then [] else [Update_transfers (transfers_l ae)])
        @ (if elk demo_config then [Workflow_status] else [])
    \<and> distinct (map fst (propagate ae))
    \<and> store released = fold (store_apply demo)
        ((if update_l ae = [] then [] else [Update_units (update_l ae)])
         @ (if input_files_l ae = [] then [] else [Finished_files (input_files_l ae)])
         @ map (\<lambda>(l, infos). Register_files infos l (unique_arguments (the (workflow_named demo_config l)))) (propagate ae)
         @ (if transfers_l ae = [] then [] else [Update_transfers (transfers_l ae)])
         @ (if elk demo_config then [Workflow_status] else [])) (store two_handlers)
    \<and> (\<not> failed \<and> (merge_size w \<le> 0 \<or> is_merge h) \<and> outputs h \<noteq> [] \<longrightarrow>
         (\<forall>l \<in> set (dependents w). \<exists>infos v.
             (l, infos) \<in> set (propagate ae) \<and> map_of infos (snd (hd (outputs h))) = Some v
           \<and> (v = output_info h
               \<or> (\<exists>t' \<in> set [task_bad]. \<exists>h'. map_of (taskhandlers two_handlers) (tag t') = Some h' \<and> outputs h' \<noteq> []
                     \<and> snd (hd (outputs h')) = snd (hd (outputs h)) \<and> v = output_info h'))))
    \<and> (\<forall>l infos fn v. (l, infos) \<in> set (propagate ae) \<and> map_of infos fn = Some v \<longrightarrow>
         (\<exists>t \<in> set (([] :: wq_task list) @ task_ok # [task_bad]). \<exists>h w s0 tr0 tu fu uu s1 tr1.
              map_of (taskhandlers two_handlers) (tag t) = Some h
            \<and> workflow_named demo_config (dataset h) = Some w
            \<and> handler_process demo h t s0 tr0 = ((False, tu, fu, uu), s1, tr1)
            \<and> (merge_size w \<le> 0 \<or> is_merge h) \<and> outputs h \<noteq> []
            \<and> l \<in> set (dependents w) \<and> fn = snd (hd (outputs h)) \<and> v = output_info h)))"
proof -
  have ev: "release demo demo_config ([] @ task_ok # [task_bad]) two_handlers = (None, released)"
    using release_ev by simp
  have cs: "moves (trace released) = [(''work/a'', 10, ''successful''), (''work/a'', 11, ''failed'')]"
    "Fs_remove [''out''] \<in> set (trace released)"
    "store_calls (trace released) =
        [Update_units [((''a'', ''units''), [(10, [], []), (11, [], [])])], Register_files [(''out'', 7)] ''b'' []]"
    "registered (store released) = [([(''out'', 7)], ''b'', [])]"
    by (simp_all add: released_def ledger_init_def)
  show ?thesis
    apply (intro conjI)
         apply (rule ev)
        apply (rule cs(1))
       apply (rule cs(2))
      apply (rule cs(3))
     apply (rule cs(4))
    apply (rule release_handles_each_task[OF ev])
    done
qed

theorem release_swallows_io_errors_witness:
  "release demo_io demo_config [task_ok, task_bad] two_handlers = (None, released)
   \<and> fst (cleanup_files demo_io [task_ok, task_bad] (release_locals_init\<lparr>fail_cleanup := [''out'']\<rparr>) two_handlers) = None
   \<and> log_records (trace (snd (cleanup_files demo_io [task_ok, task_bad]
         (release_locals_init\<lparr>fail_cleanup := [''out'']\<rparr>) two_handlers))) = []"
proof -
  have h: "\<forall>fs. fs_remove demo_io fs = None \<or> fs_remove demo_io fs = Some IOError \<or> fs_remove demo_io fs = Some OSError"
    by (simp add: demo_io_def)
  have d: "demo_io\<lparr>fs_remove := (\<lambda>fs. None)\<rparr> = demo"
    by (simp add: demo_io_def demo_def)
  note t = release_swallows_io_errors_silently[OF h, of demo_config "[task_ok, task_bad]" two_handlers
      "release_locals_init\<lparr>fail_cleanup := [''out'']\<rparr>" two_handlers]
  have e: "release demo_io demo_config [task_ok, task_bad] two_handlers = (None, released)"
    using t[THEN conjunct1] release_ev unfolding d by simp
  have f: "fst (cleanup_files demo_io [task_ok, task_bad] (release_locals_init\<lparr>fail_cleanup := [''out'']\<rparr>) two_handlers) = None"
    "log_records (trace (snd (cleanup_files demo_io [task_ok, task_bad]
         (release_locals_init\<lparr>fail_cleanup := [''out'']\<rparr>) two_handlers))) = log_records (trace two_handlers)"
    using t by blast+
  have g: "log_records (trace two_handlers) = []" by (simp add: two_handlers_def)
  show ?thesis using e f g by simp
qed

text \<open>
  Claim C7 as stated fails: here \<open>fs.remove\<close> raises \<open>IOError\<close> on the outputs of the
  failed task 11, and the only log record of the whole \<open>release\<close> is the summary.
\<close>

theorem release_io_error_is_not_logged:
  "fs_remove demo_io [''out''] = Some IOError
   \<and> release demo_io demo_config [task_ok, task_bad] two_handlers = (None, released)
   \<and> Fs_remove [''out''] \<in> set (trace released)
   \<and> log_records (trace released) =
       [(INFO, Summary \<lparr>summary_exe = [], summary_wq = [],
                        summary_taskdirs = [(str_int 11, ''failed'')], summary_monitors = []\<rparr>)]"
  by (simp add: release_io_ev) (simp add: demo_io_def released_def)

theorem release_twice_is_rejected_witness:
  "map_of (taskhandlers released) (tag task_ok) = None
   \<and> fst (release demo demo_config [task_ok] released) \<noteq> None
   \<and> store (snd (release demo demo_config [task_ok] released)) = store released
   \<and> committed (store (snd (release demo demo_config [task_ok] released)))
       = [[((''a'', ''units''), [(10, [], []), (11, [], [])])]]"
proof -
  have a: "task_ok \<in> set [task_ok, task_bad]" "task_ok \<in> set [task_ok]" "tag task_ok = tag task_ok"
    by simp_all
  from release_twice_is_rejected[OF release_ev a] show ?thesis
    by (simp add: released_def ledger_init_def)
qed

section \<open>Properties of obtain\<close>

lemma claim_calls_append: "claim_calls (xs @ ys) = claim_calls xs @ claim_calls ys"
  by (induction xs rule: claim_calls.induct) auto

lemma status_updates_append: "status_updates (xs @ ys) = status_updates xs @ status_updates ys"
  by (induction xs rule: status_updates.induct) auto

lemma pop_merges_calls:
  "claim_calls (trace (snd (pop_merges c ws p))) =
     claim_calls (trace p) @ map (\<lambda>w. Pop_unmerged_tasks (label w) (merge_size w) 10) ws
   \<and> status_updates (trace (snd (pop_merges c ws p))) = status_updates (trace p)
   \<and> sent_messages (trace (snd (pop_merges c ws p))) = sent_messages (trace p)
   \<and> monitor (snd (pop_merges c ws p)) = monitor p"
  by (induction ws arbitrary: p)
     (simp_all add: emit_def claim_calls_append status_updates_append sent_messages_append split_def)

lemma pop_new_calls:
  "claim_calls (trace (snd (pop_new c ds p))) =
     claim_calls (trace p) @ map (\<lambda>(l, n, t). Pop_units l n t) ds
   \<and> status_updates (trace (snd (pop_new c ds p))) = status_updates (trace p)
   \<and> sent_messages (trace (snd (pop_new c ds p))) = sent_messages (trace p)
   \<and> monitor (snd (pop_new c ds p)) = monitor p"
  by (induction c ds p rule: pop_new.induct)
     (simp_all add: emit_def claim_calls_append status_updates_append sent_messages_append split_def)

lemma finish_task_effect:
  "finish_task c w tid files lumis jdir mrg su (p, tasks) = (p', tasks') \<Longrightarrow>
     store p' = store p
     \<and> claim_calls (trace p') = claim_calls (trace p)
     \<and> store_calls (trace p') = store_calls (trace p)
     \<and> telemetry_calls (trace p') = telemetry_calls (trace p)
     \<and> status_updates (trace p') = status_updates (trace p)
     \<and> sent_messages (trace p') = sent_messages (trace p)
     \<and> map_of (taskhandlers p') tid = Some (wflow_handler c w tid files lumis jdir mrg)
     \<and> log_records (trace p') = log_records (trace p)
     \<and> (\<exists>i2 o2 e2. tasks' = tasks @ [(if mrg then ''merge'' else category_name w, cmd, tid, i2, o2, e2, jdir)])"
  by (cases su)
     (auto simp: finish_task_def emit_def Let_def claim_calls_append store_calls_append
        telemetry_calls_append status_updates_append sent_messages_append log_records_append update_conv'
       split: prod.splits)

lemma assemble_task_frame:
  assumes "assemble_task c cfg registration ti (p, tasks, ids) = (r, p', tasks', ids')"
  shows "claim_calls (trace p') = claim_calls (trace p)
    \<and> telemetry_calls (trace p') = telemetry_calls (trace p)
    \<and> status_updates (trace p') = status_updates (trace p)
    \<and> sent_messages (trace p') = sent_messages (trace p)
    \<and> (r = None \<longrightarrow> map (\<lambda>d. fst (snd (snd d))) tasks' = map (\<lambda>d. fst (snd (snd d))) tasks @ [fst ti])"
proof -
  obtain tid lbl files lumis ua mrg where ti: "ti = (tid, lbl, files, lumis, ua, mrg)"
    by (metis prod_cases6)
  show ?thesis
    using assms unfolding ti
    by (auto simp: assemble_task_def Let_def emit_def claim_calls_append telemetry_calls_append
          status_updates_append sent_messages_append
        split: option.splits sum.splits prod.splits if_splits
        dest!: finish_task_effect)
qed

lemma assemble_all_frame:
  "assemble_all c cfg registration tis (p, tasks, ids) = (r, p', tasks', ids') \<Longrightarrow>
     claim_calls (trace p') = claim_calls (trace p)
     \<and> telemetry_calls (trace p') = telemetry_calls (trace p)
     \<and> status_updates (trace p') = status_updates (trace p)
     \<and> sent_messages (trace p') = sent_messages (trace p)
     \<and> (r = None \<longrightarrow> map (\<lambda>d. fst (snd (snd d))) tasks' = map (\<lambda>d. fst (snd (snd d))) tasks @ map fst tis)"
proof (induction tis arbitrary: p tasks ids)
  case Nil
  then show ?case by simp
next
  case (Cons ti tis)
  obtain r1 p1 tasks1 ids1 where s: "assemble_task c cfg registration ti (p, tasks, ids) = (r1, p1, tasks1, ids1)"
    by (metis prod_cases4)
  note f = assemble_task_frame[OF s]
  show ?case
  proof (cases r1)
    case (Some e)
    with Cons.prems s f show ?thesis by (auto simp: andthen_def)
  next
    case None
    with Cons.prems s have l: "assemble_all c cfg registration tis (p1, tasks1, ids1) = (r, p', tasks', ids')"
      by (simp add: andthen_def)
    from Cons.IH[OF l] f None show ?thesis by auto
  qed
qed

lemma claim_calls_work_left: "claim_calls (map (\<lambda>w. Store (Work_left (f w))) ws) = []"
  by (induction ws) simp_all

lemma projections_work_left:
  "status_updates (map (\<lambda>w. Store (Work_left (f w))) ws) = []"
  "sent_messages (map (\<lambda>w. Store (Work_left (f w))) ws) = []"
  by (induction ws) simp_all

lemma obtain_tasks_no_status_update:
  "status_updates (trace (snd (snd (obtain_tasks c cfg total_cores tasks p)))) = status_updates (trace p)
   \<and> sent_messages (trace (snd (snd (obtain_tasks c cfg total_cores tasks p)))) = sent_messages (trace p)"
proof -
  let ?p0 = "emit (map (\<lambda>w. Store (Work_left (label w))) (workflows cfg)) p"
  let ?ds = "algo_run c total_cores tasks (map (\<lambda>w. (w, work_left c (store p) (label w))) (workflows cfg))"
  obtain mi p1 where m: "pop_merges c (workflows cfg) ?p0 = (mi, p1)" by (metis prod.collapse)
  obtain ui p2 where u: "pop_new c ?ds p1 = (ui, p2)" by (metis prod.collapse)
  have c0: "status_updates (trace ?p0) = status_updates (trace p)" "sent_messages (trace ?p0) = sent_messages (trace p)"
    by (simp_all add: emit_def status_updates_append sent_messages_append projections_work_left)
  have c2: "status_updates (trace p2) = status_updates (trace p)" "sent_messages (trace p2) = sent_messages (trace p)"
    using pop_merges_calls[of c "workflows cfg" ?p0] pop_new_calls[of c ?ds p1] m u c0 by simp_all
  show ?thesis
  proof (cases "mi @ ui = []")
    case True
    with m u c2 show ?thesis by (simp add: obtain_tasks_def Let_def)
  next
    case False
    let ?ids0 = "map fst (mi @ ui)"
    let ?reg = "rev (zip ?ids0 (monitor_register_tasks c (monitor p2) ?ids0))"
    let ?p3 = "emit [Telemetry (Register_tasks ?ids0)] p2"
    obtain r p4 descrs ids where a: "assemble_all c cfg ?reg (mi @ ui) (?p3, [], []) = (r, p4, descrs, ids)"
      by (metis prod_cases4)
    note f = assemble_all_frame[OF a]
    show ?thesis
      using m u False a f c2
      by (cases r) (auto simp: obtain_tasks_def Let_def emit_def status_updates_append sent_messages_append)
  qed
qed

text \<open>
  Claim C5. In every call of \<open>obtain\<close>, whatever its outcome, the claiming calls it makes
  on the store are: \<open>pop_unmerged_tasks(label, merge_size, 10)\<close> for every workflow, in
  the order of the configuration, and only then one \<open>pop_units\<close> per directive of the
  allocation algorithm. When \<open>obtain\<close> returns, the ids of the task descriptions are the
  ids of the TaskInfos of the first calls followed by those of the second: every task
  that comes from merge claiming stands before every task made of new units.
\<close>

theorem obtain_claims_merges_before_units:
  "claim_calls (trace (snd (snd (obtain_tasks c cfg total_cores tasks p)))) =
     claim_calls (trace p)
     @ map (\<lambda>w. Pop_unmerged_tasks (label w) (merge_size w) 10) (workflows cfg)
     @ map (\<lambda>(l, n, t). Pop_units l n t)
         (algo_run c total_cores tasks (map (\<lambda>w. (w, work_left c (store p) (label w))) (workflows cfg)))
   \<and> (fst (obtain_tasks c cfg total_cores tasks p) = None \<longrightarrow>
        map (\<lambda>d. fst (snd (snd d))) (fst (snd (obtain_tasks c cfg total_cores tasks p))) =
          map fst (fst (pop_merges c (workflows cfg)
                     (emit (map (\<lambda>w. Store (Work_left (label w))) (workflows cfg)) p)))
          @ map fst (fst (pop_new c
                     (algo_run c total_cores tasks (map (\<lambda>w. (w, work_left c (store p) (label w))) (workflows cfg)))
                     (snd (pop_merges c (workflows cfg)
                        (emit (map (\<lambda>w. Store (Work_left (label w))) (workflows cfg)) p))))))"
proof -
  let ?p0 = "emit (map (\<lambda>w. Store (Work_left (label w))) (workflows cfg)) p"
  let ?ds = "algo_run c total_cores tasks (map (\<lambda>w. (w, work_left c (store p) (label w))) (workflows cfg))"
  obtain mi p1 where m: "pop_merges c (workflows cfg) ?p0 = (mi, p1)" by (metis prod.collapse)
  obtain ui p2 where u: "pop_new c ?ds p1 = (ui, p2)" by (metis prod.collapse)
  have c0: "claim_calls (trace ?p0) = claim_calls (trace p)"
    by (simp add: emit_def claim_calls_append claim_calls_work_left)
  have c2: "claim_calls (trace p2) = claim_calls (trace p)
     @ map (\<lambda>w. Pop_unmerged_tasks (label w) (merge_size w) 10) (workflows cfg)
     @ map (\<lambda>(l, n, t). Pop_units l n t) ?ds"
    using pop_merges_calls[of c "workflows cfg" ?p0] pop_new_calls[of c ?ds p1] m u c0 by simp
  show ?thesis
  proof (cases "mi @ ui = []")
    case True
    with m u c2 show ?thesis by (simp add: obtain_tasks_def Let_def)
  next
    case False
    let ?ids0 = "map fst (mi @ ui)"
    let ?reg = "rev (zip ?ids0 (monitor_register_tasks c (monitor p2) ?ids0))"
    let ?p3 = "emit [Telemetry (Register_tasks ?ids0)] p2"
    obtain r p4 descrs ids where a: "assemble_all c cfg ?reg (mi @ ui) (?p3, [], []) = (r, p4, descrs, ids)"
      by (metis prod_cases4)
    note f = assemble_all_frame[OF a]
    have c3: "claim_calls (trace ?p3) = claim_calls (trace p2)" by (simp add: emit_def claim_calls_append)
    show ?thesis
      using m u False a f c2 c3
      by (cases r) (auto simp: obtain_tasks_def Let_def emit_def claim_calls_append)
  qed
qed

lemma scan_constituents_returns:
  "scan_constituents c cfg w lbl ls (missing, infiles, inreports) = Inr res \<Longrightarrow>
     (\<forall>task \<in> set (map fst ls). get_outputs c w task \<noteq> [])
     \<and> res = (missing @ filter (\<lambda>task. \<not> isfile c (get_report c cfg lbl task)) (map fst ls),
          infiles @ map (\<lambda>task. (task, snd (hd (get_outputs c w task))))
                      (filter (\<lambda>task. isfile c (get_report c cfg lbl task)) (map fst ls)),
          inreports @ map (get_report c cfg lbl)
                      (filter (\<lambda>task. isfile c (get_report c cfg lbl task)) (map fst ls)))"
proof (induction ls arbitrary: missing infiles inreports)
  case Nil
  then show ?case by simp
next
  case (Cons x ls)
  obtain task a b d where x: "x = (task, a, b, d)" by (metis prod_cases4)
  show ?case
  proof (cases "get_outputs c w task")
    case Nil
    with Cons.prems x show ?thesis by (simp add: Let_def)
  next
    case (Cons y others)
    obtain rf infile where y: "y = (rf, infile)" by (metis prod.collapse)
    show ?thesis
    proof (cases "isfile c (get_report c cfg lbl task)")
      case True
      with Cons.prems x Cons y have
        "scan_constituents c cfg w lbl ls (missing, infiles @ [(task, infile)], inreports @ [get_report c cfg lbl task]) = Inr res"
        by (simp add: Let_def)
      from Cons.IH[OF this] True Cons y x show ?thesis by simp
    next
      case False
      with Cons.prems x Cons y have
        "scan_constituents c cfg w lbl ls (missing @ [task], infiles, inreports) = Inr res"
        by (simp add: Let_def)
      from Cons.IH[OF this] False Cons y x show ?thesis by simp
    qed
  qed
qed

lemma finish_task_handlers:
  "finish_task c w tid files lumis jdir mrg su (p, tasks) = (p', tasks') \<Longrightarrow>
     taskhandlers p' = AList.update tid (wflow_handler c w tid files lumis jdir mrg) (taskhandlers p)
     \<and> replays c p p'"
  by (cases su)
     (auto simp: finish_task_def emit_def Let_def replays_def split: prod.splits)

lemma pop_merges_replays:
  "store_calls (trace (snd (pop_merges c ws p))) =
     store_calls (trace p) @ map (\<lambda>w. Pop_unmerged_tasks (label w) (merge_size w) 10) ws
   \<and> replays c p (snd (pop_merges c ws p))
   \<and> telemetry_calls (trace (snd (pop_merges c ws p))) = telemetry_calls (trace p)
   \<and> taskhandlers (snd (pop_merges c ws p)) = taskhandlers p"
proof (induction ws arbitrary: p)
  case Nil
  show ?case by (simp add: replays_refl)
next
  case (Cons w ws)
  let ?q = "emit [Store (Pop_unmerged_tasks (label w) (merge_size w) 10)]
             (p\<lparr>store := snd (pop_unmerged_tasks c (store p) (label w) (merge_size w) 10)\<rparr>)"
  have e: "snd (pop_merges c (w # ws) p) = snd (pop_merges c ws ?q)"
    by (simp add: split_def)
  have q: "replays c p ?q" by (simp add: emit_def replays_def)
  from Cons.IH[of ?q] q show ?case
    unfolding e by (auto simp: emit_def store_calls_append telemetry_calls_append intro: replays_trans)
qed

lemma pop_new_replays:
  "store_calls (trace (snd (pop_new c ds p))) =
     store_calls (trace p) @ map (\<lambda>(l, n, t). Pop_units l n t) ds
   \<and> replays c p (snd (pop_new c ds p))
   \<and> telemetry_calls (trace (snd (pop_new c ds p))) = telemetry_calls (trace p)
   \<and> taskhandlers (snd (pop_new c ds p)) = taskhandlers p"
proof (induction ds arbitrary: p)
  case Nil
  show ?case by (simp add: replays_refl)
next
  case (Cons d ds)
  obtain l n t where d: "d = (l, n, t)" by (metis prod_cases3)
  let ?q = "emit [Store (Pop_units l n t), Log DEBUG (Created_tasks (length (fst (pop_units c (store p) l n t))) l)]
             (p\<lparr>store := snd (pop_units c (store p) l n t)\<rparr>)"
  have e: "snd (pop_new c (d # ds) p) = snd (pop_new c ds ?q)"
    by (simp add: d split_def)
  have q: "replays c p ?q" by (simp add: emit_def replays_def)
  from Cons.IH[of ?q] q show ?case
    unfolding e by (auto simp: d emit_def store_calls_append telemetry_calls_append intro: replays_trans)
qed

lemma assemble_task_returns:
  assumes "assemble_task c cfg registration (tid, lbl, files, lumis, ua, mrg) (p, tasks, ids) = (None, p', tasks', ids')"
  shows "\<exists>w. workflow_named cfg lbl = Some w
    \<and> (mrg \<longrightarrow> (\<forall>task \<in> set (map fst lumis). get_outputs c w task \<noteq> []))
    \<and> store_calls (trace p') = store_calls (trace p)
        @ (if missing_inputs c cfg (tid, lbl, files, lumis, ua, mrg) = [] then []
           else [Update_missing (missing_inputs c cfg (tid, lbl, files, lumis, ua, mrg))])
    \<and> replays c p p'
    \<and> telemetry_calls (trace p') = telemetry_calls (trace p)
    \<and> taskhandlers p' = AList.update tid
         (wflow_handler c w tid
            (if mrg then map (\<lambda>task. (task, snd (hd (get_outputs c w task))))
                           (filter (\<lambda>task. isfile c (get_report c cfg lbl task)) (map fst lumis))
             else files)
            lumis (util_taskdir c (workdir w) tid) mrg) (taskhandlers p)
    \<and> (\<exists>i2 o2 e2. tasks' = tasks @ [(if mrg then ''merge'' else category_name w, cmd, tid, i2, o2, e2,
                                         util_taskdir c (workdir w) tid)])"
proof -
  from assms obtain w where w: "workflow_named cfg lbl = Some w"
    by (auto simp: assemble_task_def split: option.splits)
  from assms w obtain reg where reg: "map_of registration tid = Some reg"
    by (auto simp: assemble_task_def Let_def split: option.splits)
  obtain monitorid syncid where r: "reg = (monitorid, syncid)" by (metis prod.collapse)
  let ?jdir = "util_taskdir c (workdir w) tid"
  let ?su = "(initial_parameters cfg monitorid syncid, initial_env cfg,
              provider_inputs cfg @ [(path_join ?jdir ''parameters.json'', ''parameters.json'', False)],
              [(path_join ?jdir ''report.json'', ''report.json'')])"
  show ?thesis
  proof (cases mrg)
    case False
    from assms w reg r False have
      f: "finish_task c w tid files lumis ?jdir False (wflow_adjust c w ?su ?jdir False (Unique ua)) (p, tasks) = (p', tasks')"
      by (auto simp: assemble_task_def Let_def split: prod.splits)
    from finish_task_effect[OF f] finish_task_handlers[OF f] w False show ?thesis
      by (auto simp: missing_inputs_def)
  next
    case True
    from assms w reg r True obtain missing infiles inreports where
      sc: "scan_constituents c cfg w lbl lumis ([], [], []) = Inr (missing, infiles, inreports)"
      by (auto simp: assemble_task_def Let_def split: sum.splits)
    note sr = scan_constituents_returns[OF sc]
    define p1 where "p1 = (if length missing > 0
                           then emit [Log WARNING (Marked_failed missing), Store (Update_missing missing)]
                                  (p\<lparr>store := update_missing c (store p) missing\<rparr>)
                           else p)"
    define p2 where "p2 = (if length infiles \<le> 1 then emit [Log DEBUG (Skipping_task tid)] p1 else p1)"
    from assms w reg r True sc have
      f: "finish_task c w tid infiles lumis ?jdir True (wflow_adjust c w ?su ?jdir True (Reports inreports)) (p2, tasks) = (p', tasks')"
      by (auto simp: assemble_task_def Let_def p1_def p2_def split: prod.splits)
    have r1: "replays c p p1" "store_calls (trace p1) = store_calls (trace p) @ (if missing = [] then [] else [Update_missing missing])"
      "telemetry_calls (trace p1) = telemetry_calls (trace p)" "taskhandlers p1 = taskhandlers p"
      by (simp_all add: p1_def emit_def replays_def store_calls_append telemetry_calls_append)
    have r2: "replays c p1 p2" "store_calls (trace p2) = store_calls (trace p1)"
      "telemetry_calls (trace p2) = telemetry_calls (trace p1)" "taskhandlers p2 = taskhandlers p1"
      by (simp_all add: p2_def emit_def replays_def store_calls_append telemetry_calls_append)
    have mi: "missing_inputs c cfg (tid, lbl, files, lumis, ua, mrg) = missing"
      using sr True by (simp add: missing_inputs_def)
    have inf: "infiles = map (\<lambda>task. (task, snd (hd (get_outputs c w task))))
                           (filter (\<lambda>task. isfile c (get_report c cfg lbl task)) (map fst lumis))"
      using sr by simp
    have rp: "replays c p p'"
      using r1(1) r2(1) finish_task_handlers[OF f] by (blast intro: replays_trans)
    from finish_task_effect[OF f] finish_task_handlers[OF f] w True sr r1 r2 mi inf rp show ?thesis
      by auto
  qed
qed

lemma assemble_all_split:
  "assemble_all c cfg registration (xs @ ti # ys) st = (None, st') \<Longrightarrow>
     \<exists>s1 s2. assemble_all c cfg registration xs st = (None, s1)
        \<and> assemble_task c cfg registration ti s1 = (None, s2)
        \<and> assemble_all c cfg registration ys s2 = (None, st')"
proof (induction xs arbitrary: st)
  case Nil
  then show ?case by (auto dest: andthen_None)
next
  case (Cons x xs)
  from Cons.prems obtain s where s: "assemble_task c cfg registration x st = (None, s)"
    and l: "assemble_all c cfg registration (xs @ ti # ys) s = (None, st')"
    by (auto dest: andthen_None)
  from Cons.IH[OF l] s show ?case by auto
qed

lemma assemble_all_returns:
  "assemble_all c cfg registration tis (p, tasks, ids) = (None, p', tasks', ids') \<Longrightarrow>
     store_calls (trace p') = store_calls (trace p)
        @ map Update_missing (filter (\<lambda>m. m \<noteq> []) (map (missing_inputs c cfg) tis))
     \<and> replays c p p'
     \<and> telemetry_calls (trace p') = telemetry_calls (trace p)
     \<and> (\<forall>k. k \<notin> fst ` set tis \<longrightarrow> map_of (taskhandlers p') k = map_of (taskhandlers p) k)
     \<and> (\<exists>new. tasks' = tasks @ new \<and> length new = length tis)"
proof (induction tis arbitrary: p tasks ids)
  case Nil
  then show ?case by (simp add: replays_refl)
next
  case (Cons ti tis)
  obtain tid lbl files lumis ua mrg where ti: "ti = (tid, lbl, files, lumis, ua, mrg)"
    by (metis prod_cases6)
  from Cons.prems obtain s where s: "assemble_task c cfg registration ti (p, tasks, ids) = (None, s)"
    and l0: "assemble_all c cfg registration tis s = (None, p', tasks', ids')"
    by (auto dest: andthen_None)
  obtain p1 tasks1 ids1 where s1: "s = (p1, tasks1, ids1)" by (metis prod_cases3)
  from s s1 ti have a: "assemble_task c cfg registration (tid, lbl, files, lumis, ua, mrg) (p, tasks, ids)
      = (None, p1, tasks1, ids1)" by simp
  from l0 s1 have l: "assemble_all c cfg registration tis (p1, tasks1, ids1) = (None, p', tasks', ids')" by simp
  from assemble_task_returns[OF a] obtain w d where
    c1: "store_calls (trace p1) = store_calls (trace p)
        @ (if missing_inputs c cfg ti = [] then [] else [Update_missing (missing_inputs c cfg ti)])"
    and r1: "replays c p p1"
    and t1: "telemetry_calls (trace p1) = telemetry_calls (trace p)"
    and h1: "taskhandlers p1 = AList.update tid
         (wflow_handler c w tid
            (if mrg then map (\<lambda>task. (task, snd (hd (get_outputs c w task))))
                           (filter (\<lambda>task. isfile c (get_report c cfg lbl task)) (map fst lumis))
             else files)
            lumis (util_taskdir c (workdir w) tid) mrg) (taskhandlers p)"
    and d1: "tasks1 = tasks @ [d]"
    unfolding ti by blast
  from Cons.IH[OF l] obtain new where
    c2: "store_calls (trace p') = store_calls (trace p1)
        @ map Update_missing (filter (\<lambda>m. m \<noteq> []) (map (missing_inputs c cfg) tis))"
    and r2: "replays c p1 p'"
    and t2: "telemetry_calls (trace p') = telemetry_calls (trace p1)"
    and h2: "\<forall>k. k \<notin> fst ` set tis \<longrightarrow> map_of (taskhandlers p') k = map_of (taskhandlers p1) k"
    and d2: "tasks' = tasks1 @ new" "length new = length tis"
    by blast
  have A: "store_calls (trace p') = store_calls (trace p)
        @ map Update_missing (filter (\<lambda>m. m \<noteq> []) (map (missing_inputs c cfg) (ti # tis)))"
    using c1 c2 by simp
  have B: "replays c p p'" using r1 r2 by (rule replays_trans)
  have C: "telemetry_calls (trace p') = telemetry_calls (trace p)" using t1 t2 by simp
  have D: "\<forall>k. k \<notin> fst ` set (ti # tis) \<longrightarrow> map_of (taskhandlers p') k = map_of (taskhandlers p) k"
    using h1 h2 ti by (auto simp: update_conv')
  have E: "\<exists>new. tasks' = tasks @ new \<and> length new = length (ti # tis)"
    using d1 d2 by (intro exI[of _ "d # new"]) simp
  from A B C D E show ?case by blast
qed

lemma store_calls_work_left:
  "store_calls (map (\<lambda>w. Store (Work_left (f w))) ws) = map (\<lambda>w. Work_left (f w)) ws"
  by (induction ws) simp_all

lemma telemetry_calls_work_left:
  "telemetry_calls (map (\<lambda>w. Store (Work_left (f w))) ws) = []"
  by (induction ws) simp_all

lemma store_apply_work_left:
  "fold (store_apply c) (map (\<lambda>w. Work_left (f w)) ws) s = s"
  by (induction ws) simp_all

lemma obtain_tasks_returns:
  assumes "obtain_tasks c cfg total_cores ts p = (None, descrs, p')"
    and "fst (pop_merges c (workflows cfg) (emit (map (\<lambda>w. Store (Work_left (label w))) (workflows cfg)) p))
         @ fst (pop_new c
                 (algo_run c total_cores ts (map (\<lambda>w. (w, work_left c (store p) (label w))) (workflows cfg)))
                 (snd (pop_merges c (workflows cfg)
                         (emit (map (\<lambda>w. Store (Work_left (label w))) (workflows cfg)) p))))
         = tis" and "tis \<noteq> []"
  shows "\<exists>p3 p4 ids.
      assemble_all c cfg (rev (zip (map fst tis) (monitor_register_tasks c (monitor p3) (map fst tis)))) tis (p3, [], [])
         = (None, p4, descrs, ids)
    \<and> replays c p p3
    \<and> store_calls (trace p3) = store_calls (trace p)
         @ map (\<lambda>w. Work_left (label w)) (workflows cfg)
         @ map (\<lambda>w. Pop_unmerged_tasks (label w) (merge_size w) 10) (workflows cfg)
         @ map (\<lambda>(l, n, t). Pop_units l n t)
             (algo_run c total_cores ts (map (\<lambda>w. (w, work_left c (store p) (label w))) (workflows cfg)))
    \<and> telemetry_calls (trace p3) = telemetry_calls (trace p) @ [Register_tasks (map fst tis)]
    \<and> taskhandlers p3 = taskhandlers p
    \<and> p' = emit [Log INFO (Creating_tasks ids), Telemetry Free] p4"
proof -
  let ?p0 = "emit (map (\<lambda>w. Store (Work_left (label w))) (workflows cfg)) p"
  let ?ds = "algo_run c total_cores ts (map (\<lambda>w. (w, work_left c (store p) (label w))) (workflows cfg))"
  define p1 where "p1 = snd (pop_merges c (workflows cfg) ?p0)"
  define p2 where "p2 = snd (pop_new c ?ds p1)"
  define p3 where "p3 = emit [Telemetry (Register_tasks (map fst tis))] p2"
  define mi where "mi = fst (pop_merges c (workflows cfg) ?p0)"
  define ui where "ui = fst (pop_new c ?ds p1)"
  have m: "pop_merges c (workflows cfg) ?p0 = (mi, p1)"
    by (simp add: p1_def mi_def)
  have u: "pop_new c ?ds p1 = (ui, p2)"
    by (simp add: p2_def ui_def)
  have t: "mi @ ui = tis"
    using assms(2) by (simp add: p1_def mi_def ui_def)
  have r0: "replays c p ?p0"
    by (rule replaysI[of _ _ "map (\<lambda>w. Store (Work_left (label w))) (workflows cfg)"])
       (simp_all add: emit_def store_calls_work_left store_apply_work_left)
  have c0: "store_calls (trace ?p0) = store_calls (trace p) @ map (\<lambda>w. Work_left (label w)) (workflows cfg)"
    "telemetry_calls (trace ?p0) = telemetry_calls (trace p)" "taskhandlers ?p0 = taskhandlers p"
    by (simp_all add: emit_def store_calls_append telemetry_calls_append store_calls_work_left
        telemetry_calls_work_left)
  note m1 = pop_merges_replays[of c "workflows cfg" ?p0, folded p1_def]
  note m2 = pop_new_replays[of c ?ds p1, folded p2_def]
  have r3: "replays c p2 p3" by (simp add: p3_def emit_def replays_def)
  have R: "replays c p p3"
    using r0 m1 m2 r3 by (blast intro: replays_trans)
  have S: "store_calls (trace p3) = store_calls (trace p)
         @ map (\<lambda>w. Work_left (label w)) (workflows cfg)
         @ map (\<lambda>w. Pop_unmerged_tasks (label w) (merge_size w) 10) (workflows cfg)
         @ map (\<lambda>(l, n, t). Pop_units l n t) ?ds"
    using c0 m1 m2 by (simp add: p3_def emit_def store_calls_append)
  have T: "telemetry_calls (trace p3) = telemetry_calls (trace p) @ [Register_tasks (map fst tis)]"
    using c0 m1 m2 by (simp add: p3_def emit_def telemetry_calls_append)
  have H: "taskhandlers p3 = taskhandlers p"
    using c0 m1 m2 by (simp add: p3_def emit_def)
  have mon2: "monitor (emit [Telemetry (Register_tasks (map fst tis))] p2) = monitor p2"
    by (simp add: emit_def)
  let ?reg = "rev (zip (map fst tis) (monitor_register_tasks c (monitor p3) (map fst tis)))"
  obtain r p4 ds ids where a: "assemble_all c cfg ?reg tis (p3, [], []) = (r, p4, ds, ids)"
    by (metis prod_cases4)
  have o: "obtain_tasks c cfg total_cores ts p =
      (case assemble_all c cfg ?reg tis (p3, [], []) of
         (Some e, p4, descrs, ids) \<Rightarrow> (Some e, [], p4)
       | (None, p4, descrs, ids) \<Rightarrow> (None, descrs, emit [Log INFO (Creating_tasks ids), Telemetry Free] p4))"
    unfolding obtain_tasks_def Let_def m u prod.case t if_not_P[OF assms(3)] p3_def mon2 by (rule refl)
  from o a assms(1) have "r = None" "ds = descrs" "p' = emit [Log INFO (Creating_tasks ids), Telemetry Free] p4"
    by (auto split: option.splits)
  with a R S T H show ?thesis by blast
qed

text \<open>
  Claim C4. Whenever \<open>obtain\<close> returns and a merge TaskInfo is among the TaskInfos it
  claimed, the workflow of that TaskInfo exists and every constituent has an output. The
  store calls of the whole \<open>obtain\<close> are the \<open>work_left\<close> queries, the claiming calls
  and then, in the order of the TaskInfos, one \<open>update_missing\<close> call for each merge
  TaskInfo that has a constituent whose report is not a file, with exactly these
  constituents; the store that \<open>obtain\<close> leaves is the store after these calls. The
  handler stored under the id of the merge task is made from the output files of the
  constituents whose report is a file, and the task description at the place of the
  TaskInfo is a merge task of that id. The telemetry calls of the whole \<open>obtain\<close> are
  \<open>register_tasks\<close> and \<open>free\<close>: no \<open>update_task_status\<close> call is made and no message
  is sent.
\<close>

theorem obtain_reports_missing_merge_inputs:
  assumes "obtain_tasks c cfg total_cores ts p = (None, descrs, p')"
    and "fst (pop_merges c (workflows cfg) (emit (map (\<lambda>w. Store (Work_left (label w))) (workflows cfg)) p))
         @ fst (pop_new c
                 (algo_run c total_cores ts (map (\<lambda>w. (w, work_left c (store p) (label w))) (workflows cfg)))
                 (snd (pop_merges c (workflows cfg)
                         (emit (map (\<lambda>w. Store (Work_left (label w))) (workflows cfg)) p))))
         = xs @ (tid, lbl, files, lumis, ua, True) # ys"
  shows "\<exists>w calls.
      workflow_named cfg lbl = Some w
    \<and> (\<forall>task \<in> set (map fst lumis). get_outputs c w task \<noteq> [])
    \<and> calls =
        map (\<lambda>w. Work_left (label w)) (workflows cfg)
        @ map (\<lambda>w. Pop_unmerged_tasks (label w) (merge_size w) 10) (workflows cfg)
        @ map (\<lambda>(l, n, t). Pop_units l n t)
            (algo_run c total_cores ts (map (\<lambda>w. (w, work_left c (store p) (label w))) (workflows cfg)))
        @ map Update_missing (filter (\<lambda>m. m \<noteq> []) (map (missing_inputs c cfg) xs))
        @ (if filter (\<lambda>task. \<not> isfile c (get_report c cfg lbl task)) (map fst lumis) = [] then []
           else [Update_missing (filter (\<lambda>task. \<not> isfile c (get_report c cfg lbl task)) (map fst lumis))])
        @ map Update_missing (filter (\<lambda>m. m \<noteq> []) (map (missing_inputs c cfg) ys))
    \<and> store_calls (trace p') = store_calls (trace p) @ calls
    \<and> store p' = fold (store_apply c) calls (store p)
    \<and> telemetry_calls (trace p') =
        telemetry_calls (trace p) @ [Register_tasks (map fst (xs @ (tid, lbl, files, lumis, ua, True) # ys)), Free]
    \<and> status_updates (trace p') = status_updates (trace p)
    \<and> sent_messages (trace p') = sent_messages (trace p)
    \<and> (tid \<notin> fst ` set ys \<longrightarrow>
         map_of (taskhandlers p') tid =
           Some (wflow_handler c w tid
                   (map (\<lambda>task. (task, snd (hd (get_outputs c w task))))
                      (filter (\<lambda>task. isfile c (get_report c cfg lbl task)) (map fst lumis)))
                   lumis (util_taskdir c (workdir w) tid) True))
    \<and> length descrs = length (xs @ (tid, lbl, files, lumis, ua, True) # ys)
    \<and> (\<exists>i2 o2 e2. descrs ! length xs = (''merge'', cmd, tid, i2, o2, e2, util_taskdir c (workdir w) tid))"
proof -
  let ?ti = "(tid, lbl, files, lumis, ua, True)"
  let ?tis = "xs @ ?ti # ys"
  let ?ds = "algo_run c total_cores ts (map (\<lambda>w. (w, work_left c (store p) (label w))) (workflows cfg))"
  let ?missing = "filter (\<lambda>task. \<not> isfile c (get_report c cfg lbl task)) (map fst lumis)"
  have ne: "?tis \<noteq> []" by simp
  from obtain_tasks_returns[OF assms(1) assms(2) ne] obtain p3 p4 ids reg where
    a: "assemble_all c cfg reg ?tis (p3, [], []) = (None, p4, descrs, ids)"
    and r3: "replays c p p3"
    and c3: "store_calls (trace p3) = store_calls (trace p)
         @ map (\<lambda>w. Work_left (label w)) (workflows cfg)
         @ map (\<lambda>w. Pop_unmerged_tasks (label w) (merge_size w) 10) (workflows cfg)
         @ map (\<lambda>(l, n, t). Pop_units l n t) ?ds"
    and t3: "telemetry_calls (trace p3) = telemetry_calls (trace p) @ [Register_tasks (map fst ?tis)]"
    and pe: "p' = emit [Log INFO (Creating_tasks ids), Telemetry Free] p4"
    by blast
  from assemble_all_split[OF a] obtain pa ta ia pb tb ib where
    l1: "assemble_all c cfg reg xs (p3, [], []) = (None, pa, ta, ia)"
    and st: "assemble_task c cfg reg ?ti (pa, ta, ia) = (None, pb, tb, ib)"
    and l2: "assemble_all c cfg reg ys (pb, tb, ib) = (None, p4, descrs, ids)"
    by (metis prod_cases3)
  from assemble_all_returns[OF l1] obtain new1 where
    ca: "store_calls (trace pa) = store_calls (trace p3)
           @ map Update_missing (filter (\<lambda>m. m \<noteq> []) (map (missing_inputs c cfg) xs))"
    and ra: "replays c p3 pa"
    and ta: "telemetry_calls (trace pa) = telemetry_calls (trace p3)"
    and da: "ta = new1" "length new1 = length xs"
    by auto
  have mi: "missing_inputs c cfg ?ti = ?missing" by (simp add: missing_inputs_def)
  from assemble_task_returns[OF st] obtain w i2 o2 e2 where
    w: "workflow_named cfg lbl = Some w"
    and go: "\<forall>task \<in> set (map fst lumis). get_outputs c w task \<noteq> []"
    and cb: "store_calls (trace pb) = store_calls (trace pa)
           @ (if ?missing = [] then [] else [Update_missing ?missing])"
    and rb: "replays c pa pb"
    and tb: "telemetry_calls (trace pb) = telemetry_calls (trace pa)"
    and hb: "taskhandlers pb = AList.update tid
         (wflow_handler c w tid
            (map (\<lambda>task. (task, snd (hd (get_outputs c w task))))
               (filter (\<lambda>task. isfile c (get_report c cfg lbl task)) (map fst lumis)))
            lumis (util_taskdir c (workdir w) tid) True) (taskhandlers pa)"
    and db: "tb = ta @ [(''merge'', cmd, tid, i2, o2, e2, util_taskdir c (workdir w) tid)]"
    unfolding mi by auto
  from assemble_all_returns[OF l2] obtain new2 where
    c4: "store_calls (trace p4) = store_calls (trace pb)
           @ map Update_missing (filter (\<lambda>m. m \<noteq> []) (map (missing_inputs c cfg) ys))"
    and r4: "replays c pb p4"
    and t4: "telemetry_calls (trace p4) = telemetry_calls (trace pb)"
    and h4: "\<forall>k. k \<notin> fst ` set ys \<longrightarrow> map_of (taskhandlers p4) k = map_of (taskhandlers pb) k"
    and d4: "descrs = tb @ new2" "length new2 = length ys"
    by blast
  have re: "replays c p4 p'" unfolding pe by (rule replays_emit_free) simp
  let ?calls = "map (\<lambda>w. Work_left (label w)) (workflows cfg)
        @ map (\<lambda>w. Pop_unmerged_tasks (label w) (merge_size w) 10) (workflows cfg)
        @ map (\<lambda>(l, n, t). Pop_units l n t) ?ds
        @ map Update_missing (filter (\<lambda>m. m \<noteq> []) (map (missing_inputs c cfg) xs))
        @ (if ?missing = [] then [] else [Update_missing ?missing])
        @ map Update_missing (filter (\<lambda>m. m \<noteq> []) (map (missing_inputs c cfg) ys))"
  have S: "store_calls (trace p') = store_calls (trace p) @ ?calls"
    using c3 ca cb c4 by (simp add: pe emit_def store_calls_append)
  have R: "replays c p p'"
    using r3 ra rb r4 re by (blast intro: replays_trans)
  have F: "store p' = fold (store_apply c) ?calls (store p)"
    by (rule replays_calls[OF R S])
  have T: "telemetry_calls (trace p') = telemetry_calls (trace p) @ [Register_tasks (map fst ?tis), Free]"
    using t3 ta tb t4 by (simp add: pe emit_def telemetry_calls_append)
  have U: "status_updates (trace p') = status_updates (trace p)"
    "sent_messages (trace p') = sent_messages (trace p)"
    using obtain_tasks_no_status_update[of c cfg total_cores ts p] assms(1) by simp_all
  have H: "tid \<notin> fst ` set ys \<longrightarrow>
         map_of (taskhandlers p') tid =
           Some (wflow_handler c w tid
                   (map (\<lambda>task. (task, snd (hd (get_outputs c w task))))
                      (filter (\<lambda>task. isfile c (get_report c cfg lbl task)) (map fst lumis)))
                   lumis (util_taskdir c (workdir w) tid) True)"
    using h4 hb by (simp add: pe emit_def update_conv')
  have L: "length descrs = length ?tis" using d4 db da by simp
  have N: "descrs ! length xs = (''merge'', cmd, tid, i2, o2, e2, util_taskdir c (workdir w) tid)"
    using d4 db da by (simp add: nth_append)
  show ?thesis
    apply (rule exI[of _ w], rule exI[of _ ?calls])
    apply (intro conjI)
              apply (rule w)
             apply (rule go)
            apply (rule refl)
           apply (rule S)
          apply (rule F)
         apply (rule T)
        apply (rule U(1))
       apply (rule U(2))
      apply (rule H)
     apply (rule L)
    apply (intro exI, rule N)
    done
qed

theorem obtain_claims_merges_before_units_witness:
  "claim_calls (trace (snd (snd (obtain_tasks demo demo_config 4 [] merge_ready))))
     = [Pop_unmerged_tasks ''a'' 0 10, Pop_unmerged_tasks ''b'' 10 10, Pop_units ''a'' 1 1]
   \<and> map (\<lambda>d. fst (snd (snd d))) (fst (snd (obtain_tasks demo demo_config 4 [] merge_ready))) = [5, 6]"
proof -
  have n: "fst (obtain_tasks demo demo_config 4 [] merge_ready) = None" by code_simp
  have e1: "claim_calls (trace merge_ready)
     @ map (\<lambda>w. Pop_unmerged_tasks (label w) (merge_size w) 10) (workflows demo_config)
     @ map (\<lambda>(l, n, t). Pop_units l n t)
         (algo_run demo 4 [] (map (\<lambda>w. (w, work_left demo (store merge_ready) (label w))) (workflows demo_config)))
     = [Pop_unmerged_tasks ''a'' 0 10, Pop_unmerged_tasks ''b'' 10 10, Pop_units ''a'' 1 1]"
    by code_simp
  have e2: "map fst (fst (pop_merges demo (workflows demo_config)
                     (emit (map (\<lambda>w. Store (Work_left (label w))) (workflows demo_config)) merge_ready)))
          @ map fst (fst (pop_new demo
                     (algo_run demo 4 [] (map (\<lambda>w. (w, work_left demo (store merge_ready) (label w))) (workflows demo_config)))
                     (snd (pop_merges demo (workflows demo_config)
                        (emit (map (\<lambda>w. Store (Work_left (label w))) (workflows demo_config)) merge_ready)))))
     = [5, 6]"
    by code_simp
  from obtain_claims_merges_before_units[of demo demo_config 4 "[]" merge_ready] n show ?thesis
    unfolding e1 e2 by blast
qed

text \<open>
  The run of \<open>obtain\<close> on a store with one merge task (5, of the tasks 1 and 2) ready for
  workflow b and one task of new units, where only the report of task 1 is a file: task 2
  is handed to \<open>update_missing\<close>, whereupon the ledger holds its unit as failed, and the
  handler of task 5 is made from the output of task 1 alone.
\<close>

theorem obtain_reports_missing_merge_inputs_witness:
  "fst (obtain_tasks demo_missing demo_config 4 [] merge_ready) = None
   \<and> store_calls (trace (snd (snd (obtain_tasks demo_missing demo_config 4 [] merge_ready)))) =
        [Work_left ''a'', Work_left ''b'', Pop_unmerged_tasks ''a'' 0 10, Pop_unmerged_tasks ''b'' 10 10,
         Pop_units ''a'' 1 1, Update_missing [2]]
   \<and> units (store (snd (snd (obtain_tasks demo_missing demo_config 4 [] merge_ready)))) = [(1, 1, Successful), (2, 2, Failed)]
   \<and> telemetry_calls (trace (snd (snd (obtain_tasks demo_missing demo_config 4 [] merge_ready)))) = [Register_tasks [5, 6], Free]
   \<and> map (\<lambda>d. (fst d, fst (snd (snd d)))) (fst (snd (obtain_tasks demo_missing demo_config 4 [] merge_ready))) = [(''merge'', 5), (''cat'', 6)]
   \<and> (\<exists>w calls.
      workflow_named demo_config ''b'' = Some w
    \<and> (\<forall>task \<in> set (map fst ([(1, 0, 0, 0), (2, 0, 0, 0)] :: lumi list)). get_outputs demo_missing w task \<noteq> [])
    \<and> calls =
        map (\<lambda>w. Work_left (label w)) (workflows demo_config)
        @ map (\<lambda>w. Pop_unmerged_tasks (label w) (merge_size w) 10) (workflows demo_config)
        @ map (\<lambda>(l, n, t). Pop_units l n t)
            (algo_run demo_missing 4 [] (map (\<lambda>w. (w, work_left demo_missing (store merge_ready) (label w))) (workflows demo_config)))
        @ map Update_missing (filter (\<lambda>m. m \<noteq> []) (map (missing_inputs demo_missing demo_config) ([] :: taskinfo list)))
        @ (if filter (\<lambda>task. \<not> isfile demo_missing (get_report demo_missing demo_config ''b'' task)) (map fst ([(1, 0, 0, 0), (2, 0, 0, 0)] :: lumi list)) = [] then []
           else [Update_missing (filter (\<lambda>task. \<not> isfile demo_missing (get_report demo_missing demo_config ''b'' task)) (map fst ([(1, 0, 0, 0), (2, 0, 0, 0)] :: lumi list)))])
        @ map Update_missing (filter (\<lambda>m. m \<noteq> []) (map (missing_inputs demo_missing demo_config) ([(6, ''a'', [(1, ''f1'')], [(1, 1, 1, 1)], None, False)] :: taskinfo list)))
    \<and> store_calls (trace (snd (snd (obtain_tasks demo_missing demo_config 4 [] merge_ready)))) = store_calls (trace merge_ready) @ calls
    \<and> store (snd (snd (obtain_tasks demo_missing demo_config 4 [] merge_ready))) = fold (store_apply demo_missing) calls (store merge_ready)
    \<and> telemetry_calls (trace (snd (snd (obtain_tasks demo_missing demo_config 4 [] merge_ready)))) =
        telemetry_calls (trace merge_ready) @ [Register_tasks (map fst (([] :: taskinfo list) @ (5, ''b'', ([] :: (int \<times> string) list), ([(1, 0, 0, 0), (2, 0, 0, 0)] :: lumi list), (None :: string option), True) # ([(6, ''a'', [(1, ''f1'')], [(1, 1, 1, 1)], None, False)] :: taskinfo list))), Free]
    \<and> status_updates (trace (snd (snd (obtain_tasks demo_missing demo_config 4 [] merge_ready)))) = status_updates (trace merge_ready)
    \<and> sent_messages (trace (snd (snd (obtain_tasks demo_missing demo_config 4 [] merge_ready)))) = sent_messages (trace merge_ready)
    \<and> (5 \<notin> fst ` set ([(6, ''a'', [(1, ''f1'')], [(1, 1, 1, 1)], None, False)] :: taskinfo list) \<longrightarrow>
         map_of (taskhandlers (snd (snd (obtain_tasks demo_missing demo_config 4 [] merge_ready)))) 5 =
           Some (wflow_handler demo_missing w 5
                   (map (\<lambda>task. (task, snd (hd (get_outputs demo_missing w task))))
                      (filter (\<lambda>task. isfile demo_missing (get_report demo_missing demo_config ''b'' task)) (map fst ([(1, 0, 0, 0), (2, 0, 0, 0)] :: lumi list))))
                   ([(1, 0, 0, 0), (2, 0, 0, 0)] :: lumi list) (util_taskdir demo_missing (workdir w) 5) True))
    \<and> length (fst (snd (obtain_tasks demo_missing demo_config 4 [] merge_ready))) = length (([] :: taskinfo list) @ (5, ''b'', ([] :: (int \<times> string) list), ([(1, 0, 0, 0), (2, 0, 0, 0)] :: lumi list), (None :: string option), True) # ([(6, ''a'', [(1, ''f1'')], [(1, 1, 1, 1)], None, False)] :: taskinfo list))
    \<and> (\<exists>i2 o2 e2. (fst (snd (obtain_tasks demo_missing demo_config 4 [] merge_ready))) ! length ([] :: taskinfo list) = (''merge'', cmd, 5, i2, o2, e2, util_taskdir demo_missing (workdir w) 5)))"
proof -
  have n: "fst (obtain_tasks demo_missing demo_config 4 [] merge_ready) = None" by code_simp
  have h1: "obtain_tasks demo_missing demo_config 4 [] merge_ready = (None, fst (snd (obtain_tasks demo_missing demo_config 4 [] merge_ready)), snd (snd (obtain_tasks demo_missing demo_config 4 [] merge_ready)))"
    using n by (simp add: prod_eq_iff)
  have h2: "fst (pop_merges demo_missing (workflows demo_config) (emit (map (\<lambda>w. Store (Work_left (label w))) (workflows demo_config)) merge_ready))
         @ fst (pop_new demo_missing
                 (algo_run demo_missing 4 [] (map (\<lambda>w. (w, work_left demo_missing (store merge_ready) (label w))) (workflows demo_config)))
                 (snd (pop_merges demo_missing (workflows demo_config)
                         (emit (map (\<lambda>w. Store (Work_left (label w))) (workflows demo_config)) merge_ready))))
         = ([] :: taskinfo list) @ (5, ''b'', ([] :: (int \<times> string) list), ([(1, 0, 0, 0), (2, 0, 0, 0)] :: lumi list), (None :: string option), True) # ([(6, ''a'', [(1, ''f1'')], [(1, 1, 1, 1)], None, False)] :: taskinfo list)"
    by code_simp
  have cs: "store_calls (trace (snd (snd (obtain_tasks demo_missing demo_config 4 [] merge_ready)))) =
        [Work_left ''a'', Work_left ''b'', Pop_unmerged_tasks ''a'' 0 10, Pop_unmerged_tasks ''b'' 10 10,
         Pop_units ''a'' 1 1, Update_missing [2]]"
    "units (store (snd (snd (obtain_tasks demo_missing demo_config 4 [] merge_ready)))) = [(1, 1, Successful), (2, 2, Failed)]"
    "telemetry_calls (trace (snd (snd (obtain_tasks demo_missing demo_config 4 [] merge_ready)))) = [Register_tasks [5, 6], Free]"
    "map (\<lambda>d. (fst d, fst (snd (snd d)))) (fst (snd (obtain_tasks demo_missing demo_config 4 [] merge_ready))) = [(''merge'', 5), (''cat'', 6)]"
    by code_simp+
  show ?thesis
    apply (intro conjI)
         apply (rule n)
        apply (rule cs(1))
       apply (rule cs(2))
      apply (rule cs(3))
     apply (rule cs(4))
    apply (rule obtain_reports_missing_merge_inputs[OF h1 h2])
    done
qed

text \<open>
  Claim C2, evaluated where the code departs from it. The merge task 5 has the
  constituents 1 and 2, and only the report of task 1 exists. \<open>obtain\<close> logs
  \<open>skipping task 5 with only one input file!\<close> and still returns the merge task for
  dispatch, with a handler made from the one remaining input file.
\<close>

theorem obtain_dispatches_merge_with_one_input:
  "fst (obtain_tasks demo_missing demo_config 4 [] merge_ready) = None
   \<and> map (\<lambda>d. (fst d, fst (snd (snd d)))) (fst (snd (obtain_tasks demo_missing demo_config 4 [] merge_ready)))
       = [(''merge'', 5), (''cat'', 6)]
   \<and> log_records (trace (snd (snd (obtain_tasks demo_missing demo_config 4 [] merge_ready))))
       = [(DEBUG, Created_tasks 1 ''a''), (WARNING, Marked_failed [2]), (DEBUG, Skipping_task 5),
          (INFO, Creating_tasks [5, 6])]
   \<and> map_of (taskhandlers (snd (snd (obtain_tasks demo_missing demo_config 4 [] merge_ready)))) 5
       = Some (wflow_handler demo_missing wf_b 5 [(1, ''out'')] [(1, 0, 0, 0), (2, 0, 0, 0)] ''work/b'' True)"
  by code_simp

end
